theory Spec2Isabelle
  imports Complex_Main
begin

section \<open>The chunked, resumable upload coordinator (UploadManager)\<close>

text \<open>
  The development embeds the upload coordinator of
  \<^verbatim>\<open>src/MUI_V1/expandable_eye_rail_mui_data_grid_community.jsx\<close>.
  JavaScript numbers that hold byte counts, indices and part numbers are modelled as
  \<^typ>\<open>int\<close> (they are integral in every call the component makes); an optional
  field \<^verbatim>\<open>f?: T\<close> is a \<^typ>\<open>'a option\<close>.
\<close>

subsection \<open>Configuration constants\<close>

definition MAX_FILES :: nat where
  "MAX_FILES = 100"

definition MAX_FILE_SIZE_BYTES :: int where
  "MAX_FILE_SIZE_BYTES = 5 * 1024 * 1024 * 1024"

definition DEFAULT_CHUNK_SIZE :: int where
  "DEFAULT_CHUNK_SIZE = 10 * 1024 * 1024"

definition MAX_PARALLEL_FILES :: int where
  "MAX_PARALLEL_FILES = 3"

definition CHUNK_MAX_RETRIES :: nat where
  "CHUNK_MAX_RETRIES = 4"

definition BACKOFF_BASE_MS :: int where
  "BACKOFF_BASE_MS = 800"

definition BACKOFF_JITTER_MS :: int where
  "BACKOFF_JITTER_MS = 250"

subsection \<open>Chunks\<close>

text \<open>
  \<^verbatim>\<open>interface ChunkMeta { index; start; end; uploaded; etag? }\<close>.
  The field \<^verbatim>\<open>end\<close> is written \<open>end'\<close>.
\<close>

record ChunkMeta =
  index :: int
  start :: int
  end' :: int
  uploaded :: bool
  etag :: "string option"

text \<open>
  \<^verbatim>\<open>String(partNumber)\<close> on an integral number: its decimal digits, with a
  minus sign for a negative one.
\<close>

definition digit_char :: "nat \<Rightarrow> char" where
  "digit_char d = ''0123456789'' ! d"

function String_nat :: "nat \<Rightarrow> string" where
  "String_nat n =
     (if n < 10 then [digit_char n] else String_nat (n div 10) @ [digit_char (n mod 10)])"
  by pat_completeness auto
termination
  by (relation "measure (\<lambda>n. n)") auto

definition String_of :: "int \<Rightarrow> string" where
  "String_of i = (if i < 0 then CHR ''-'' # String_nat (nat (- i)) else String_nat (nat i))"

text \<open>
  The \<^verbatim>\<open>for\<close> loop of \<^verbatim>\<open>buildChunks\<close>, with its loop variables
  \<^verbatim>\<open>index\<close> (here \<open>i\<close>), \<^verbatim>\<open>start\<close> (here \<open>s\<close>) and the array
  \<^verbatim>\<open>chunks\<close> as arguments; \<open>n\<close> is the parameter \<^verbatim>\<open>size\<close> and \<open>cs\<close>
  is \<^verbatim>\<open>chunkSize\<close>. The loop need not end, so the result is an option and
  \<open>None\<close> stands for a run that never returns.
\<close>

partial_function (option) buildChunks_loop ::
  "int \<Rightarrow> int \<Rightarrow> int list \<Rightarrow> (string \<rightharpoonup> string) \<Rightarrow> int \<Rightarrow> int \<Rightarrow> ChunkMeta list
     \<Rightarrow> ChunkMeta list option" where
  "buildChunks_loop n cs alreadyUploadedParts partsETags i s chunks =
     (if s < n then
        (let e = min (s + cs) n;
             partNumber = i + 1;
             uploadedAlready = (partNumber \<in> set alreadyUploadedParts)
         in buildChunks_loop n cs alreadyUploadedParts partsETags (i + 1) (s + cs)
              (chunks @
                [\<lparr>index = i, start = s, end' = e, uploaded = uploadedAlready,
                  etag = (if uploadedAlready then partsETags (String_of partNumber)
                          else None)\<rparr>]))
      else Some chunks)"

declare buildChunks_loop.simps [code]

definition buildChunks ::
  "int \<Rightarrow> int \<Rightarrow> int list \<Rightarrow> (string \<rightharpoonup> string) \<Rightarrow> ChunkMeta list option" where
  "buildChunks n cs alreadyUploadedParts partsETags =
     buildChunks_loop n cs alreadyUploadedParts partsETags 0 0 []"

text \<open>
  Two auxiliary notions used to describe the result of the loop in closed form: the
  \<open>k\<close>-th chunk the loop appends, and the number of chunks it appends.
\<close>

definition planned_chunk :: "int \<Rightarrow> int \<Rightarrow> int list \<Rightarrow> (string \<rightharpoonup> string) \<Rightarrow> nat \<Rightarrow> ChunkMeta" where
  "planned_chunk n cs parts etags k =
     \<lparr>index = int k, start = int k * cs, end' = min (int k * cs + cs) n,
      uploaded = (int k + 1 \<in> set parts),
      etag = (if int k + 1 \<in> set parts then etags (String_of (int k + 1)) else None)\<rparr>"

definition chunk_count :: "int \<Rightarrow> int \<Rightarrow> nat" where
  "chunk_count n cs = nat \<lceil>real_of_int n / real_of_int cs\<rceil>"


subsection \<open>Upload records and the state of the manager\<close>

text \<open>
  \<^verbatim>\<open>type UploadStatus = "queued" | "uploading" | "paused" | "done" | "error" | "canceled"
  | "awaiting-file"\<close>.
\<close>

datatype UploadStatus = Queued | Uploading | Paused | Done | Error | Canceled | AwaitingFile

text \<open>
  The browser's \<^verbatim>\<open>File\<close>, as far as the manager reads it: \<^verbatim>\<open>name\<close>,
  \<^verbatim>\<open>size\<close> (written \<open>size'\<close>) and \<^verbatim>\<open>lastModified\<close>.
\<close>

record File =
  name :: string
  size' :: int
  lastModified :: int

text \<open>
  The identifiers returned by \<^verbatim>\<open>createUUID()\<close> are opaque and only compared for
  equality. They are modelled by a supply of natural numbers: the \<open>k\<close>-th identifier
  drawn is \<open>k\<close>.
\<close>

type_synonym uuid = nat

text \<open>
  \<^verbatim>\<open>interface UploadFileMeta\<close>. The field \<^verbatim>\<open>id\<close> is written \<open>id'\<close>; the field
  \<^verbatim>\<open>controller\<close> records whether an \<^verbatim>\<open>AbortController\<close> is attached
  (\<open>False\<close> for \<^verbatim>\<open>null\<close>): the signal of that controller is passed to no request, so
  aborting it changes nothing the model observes.
\<close>

record UploadFileMeta =
  id' :: uuid
  "file" :: "File option"
  fileName :: string
  fileSize :: int
  fileLastModified :: "int option"
  status :: UploadStatus
  progress :: real
  uploadedBytes :: int
  uploadId :: "string option"
  chunkSize :: int
  chunks :: "ChunkMeta list"
  error :: "string option"
  controller :: bool
  completing :: bool
  fileUrl :: "string option"

datatype Severity = Success | Info | Warning | Failure

text \<open>
  A toast of the snack queue; \<^verbatim>\<open>severity: "error"\<close> is written \<open>Failure\<close>.
\<close>

record Snack =
  snack_id :: uuid
  message :: string
  severity :: Severity

text \<open>
  The state the component holds: the \<^verbatim>\<open>uploads\<close> array, the snack queue of
  \<^verbatim>\<open>useSnackQueue\<close>, and the number of identifiers drawn so far.
\<close>

record ManagerState =
  uploads :: "UploadFileMeta list"
  queue :: "Snack list"
  uuids :: nat

text \<open>JavaScript truthiness of an optional number and of an optional string.\<close>

definition truthy_num :: "int option \<Rightarrow> bool" where
  "truthy_num x = (case x of None \<Rightarrow> False | Some v \<Rightarrow> v \<noteq> 0)"

definition truthy_str :: "string option \<Rightarrow> bool" where
  "truthy_str x = (case x of None \<Rightarrow> False | Some v \<Rightarrow> v \<noteq> [])"

text \<open>\<^verbatim>\<open>push(message, severity)\<close> appends a toast with a fresh identifier.\<close>

definition push :: "string \<Rightarrow> Severity \<Rightarrow> ManagerState \<Rightarrow> ManagerState" where
  "push m sev st =
     st\<lparr>queue := queue st @ [\<lparr>snack_id = uuids st, message = m, severity = sev\<rparr>],
        uuids := Suc (uuids st)\<rparr>"

text \<open>\<^verbatim>\<open>setUploads(updater)\<close> and the frequent updater that maps over the array.\<close>

definition setUploads ::
  "(UploadFileMeta list \<Rightarrow> UploadFileMeta list) \<Rightarrow> ManagerState \<Rightarrow> ManagerState" where
  "setUploads f st = st\<lparr>uploads := f (uploads st)\<rparr>"

definition findById :: "uuid \<Rightarrow> UploadFileMeta list \<Rightarrow> UploadFileMeta option" where
  "findById i us = find (\<lambda>u. id' u = i) us"

text \<open>\<^verbatim>\<open>Array.prototype.findIndex\<close>: the first position that satisfies \<open>P\<close>, or -1.\<close>

fun findIndex :: "('a \<Rightarrow> bool) \<Rightarrow> 'a list \<Rightarrow> int" where
  "findIndex P [] = - 1"
| "findIndex P (x # xs) =
     (if P x then 0 else (let r = findIndex P xs in if r < 0 then - 1 else r + 1))"

subsection \<open>User actions\<close>

text \<open>
  Strings that the source writes with characters outside ASCII are given by their UTF-8
  bytes: U+26D4 (no entry), U+2026 (ellipsis), U+26A0 U+FE0F (warning sign) and U+2705
  (check mark).
\<close>

definition no_entry_sign :: string where
  "no_entry_sign = [CHR 0xE2, CHR 0x9B, CHR 0x94]"

definition ellipsis :: string where
  "ellipsis = [CHR 0xE2, CHR 0x80, CHR 0xA6]"

definition warning_sign :: string where
  "warning_sign = [CHR 0xE2, CHR 0x9A, CHR 0xA0, CHR 0xEF, CHR 0xB8, CHR 0x8F]"

definition check_mark :: string where
  "check_mark = [CHR 0xE2, CHR 0x9C, CHR 0x85]"

text \<open>
  The predicate of the \<^verbatim>\<open>findIndex\<close> call in \<^verbatim>\<open>addFilesToQueue\<close>: an
  awaiting-file placeholder with the fingerprint of the incoming file.
\<close>

definition matchesPlaceholder :: "File \<Rightarrow> UploadFileMeta \<Rightarrow> bool" where
  "matchesPlaceholder f u \<longleftrightarrow>
     status u = AwaitingFile \<and> fileName u = name f \<and> fileSize u = size' f \<and>
     (if truthy_num (fileLastModified u) then fileLastModified u = Some (lastModified f)
      else True)"

text \<open>
  The body of \<^verbatim>\<open>addFilesToQueue\<close>: the \<^verbatim>\<open>for (const file of files)\<close> loop over
  the copy \<^verbatim>\<open>next\<close> of the array, held in the \<open>uploads\<close> field of the state. The
  first branch is the \<^verbatim>\<open>break\<close>, the second the \<^verbatim>\<open>continue\<close>.
\<close>

fun addFilesToQueue :: "File list \<Rightarrow> ManagerState \<Rightarrow> ManagerState" where
  "addFilesToQueue [] st = st"
| "addFilesToQueue (f # fs) st =
     (if MAX_FILES \<le> length (uploads st) then
        push ''Upload limit reached (100 files)'' Warning st
      else if MAX_FILE_SIZE_BYTES < size' f then
        addFilesToQueue fs
          (push (no_entry_sign @ '' '' @ name f @ '' exceeds 5GB limit'') Failure st)
      else
        (let idx = findIndex (matchesPlaceholder f) (uploads st) in
         if 0 \<le> idx then
           (let existing = uploads st ! nat idx in
            addFilesToQueue fs
              (push (''Resuming '' @ name f @ ellipsis) Info
                 (st\<lparr>uploads := (uploads st)
                     [nat idx := existing\<lparr>file := Some f, status := Queued, error := None,
                                          fileLastModified := Some (lastModified f)\<rparr>]\<rparr>)))
         else
           addFilesToQueue fs
             (st\<lparr>uploads := uploads st @
                   [\<lparr>id' = uuids st, file = Some f, fileName = name f, fileSize = size' f,
                     fileLastModified = Some (lastModified f), status = Queued,
                     progress = 0, uploadedBytes = 0, uploadId = None,
                     chunkSize = DEFAULT_CHUNK_SIZE, chunks = [], error = None,
                     controller = False, completing = False, fileUrl = None\<rparr>],
                 uuids := Suc (uuids st)\<rparr>)))"

definition pauseUpload :: "uuid \<Rightarrow> ManagerState \<Rightarrow> ManagerState" where
  "pauseUpload i =
     setUploads (map (\<lambda>u. if id' u \<noteq> i then u
        else u\<lparr>controller := False,
               status := (if status u = Done then Done else Paused)\<rparr>))"

definition resumeUpload :: "uuid \<Rightarrow> ManagerState \<Rightarrow> ManagerState" where
  "resumeUpload i =
     setUploads (map (\<lambda>u. if id' u = i \<and> status u \<noteq> Done
        then u\<lparr>status := Queued, error := None\<rparr> else u))"

text \<open>
  \<^verbatim>\<open>cancelUpload\<close> also asks the backend to abort the multipart session; the request
  is fire-and-forget and its failure is swallowed, so only the state change is modelled.
\<close>

definition cancelUpload :: "uuid \<Rightarrow> ManagerState \<Rightarrow> ManagerState" where
  "cancelUpload i =
     setUploads (map (\<lambda>u. if id' u \<noteq> i then u
        else u\<lparr>status := Canceled, controller := False\<rparr>))"

text \<open>
  \<^verbatim>\<open>recoverMissingFile\<close> once the user has picked the file \<open>f\<close>: the updater maps
  over the array and pushes an error toast for each record of that id whose name or size
  differs.
\<close>

definition recoverMissingFile :: "uuid \<Rightarrow> File \<Rightarrow> ManagerState \<Rightarrow> ManagerState" where
  "recoverMissingFile i f st =
     (let mismatch = (\<lambda>u. fileName u \<noteq> name f \<or> fileSize u \<noteq> size' f);
          st' = setUploads (map (\<lambda>u. if id' u \<noteq> i then u
                   else if mismatch u then u
                   else u\<lparr>file := Some f, fileLastModified := Some (lastModified f),
                          status := Queued, error := None\<rparr>)) st
      in foldl (\<lambda>s u. push ''File doesn't match the original (name/size)'' Failure s) st'
           (filter (\<lambda>u. id' u = i \<and> mismatch u) (uploads st)))"

subsection \<open>Promotion of queued files\<close>

text \<open>
  The first statement of \<^verbatim>\<open>startFileUpload(id)\<close>, which runs synchronously when the
  promotion effect calls it; the rest of the function is the asynchronous pipeline below.
\<close>

definition startFileUpload_begin :: "uuid \<Rightarrow> ManagerState \<Rightarrow> ManagerState" where
  "startFileUpload_begin i =
     setUploads (map (\<lambda>u. if id' u = i then u\<lparr>status := Uploading, error := None\<rparr> else u))"

text \<open>
  The effect that runs whenever \<^verbatim>\<open>uploads\<close> has changed: it counts the uploading
  records and starts the first queued records that have a file, up to the free capacity.
\<close>

definition promoteQueued :: "ManagerState \<Rightarrow> ManagerState" where
  "promoteQueued st =
     (let current = uploads st;
          uploadingCount = length (filter (\<lambda>u. status u = Uploading) current);
          capacity = MAX_PARALLEL_FILES - int uploadingCount
      in if capacity \<le> 0 then st
         else
           (let nextToStart =
                  take (nat capacity)
                    (filter (\<lambda>u. status u = Queued \<and> file u \<noteq> None) current)
            in foldl (\<lambda>s u. startFileUpload_begin (id' u) s) st nextToStart))"

subsection \<open>Failures of an attempt and the retry classification\<close>

text \<open>
  What the \<^verbatim>\<open>catch\<close> blocks read from a thrown value: whether it is an Axios error
  (\<^verbatim>\<open>err.isAxiosError\<close>), the status of its HTTP response if it has one
  (\<^verbatim>\<open>err.response?.status\<close>) and its message. A \<open>PlainError\<close> is a value made by
  \<^verbatim>\<open>new Error(message)\<close> or a \<^verbatim>\<open>TypeError\<close> of the runtime; the runtime's
  own message of a \<^verbatim>\<open>TypeError\<close> (a property read from \<^verbatim>\<open>undefined\<close>) is
  written \<open>''TypeError''\<close>.
\<close>

datatype Exn = AxiosError "int option" string | PlainError string

fun isAxiosError :: "Exn \<Rightarrow> bool" where
  "isAxiosError (AxiosError st m) = True"
| "isAxiosError (PlainError m) = False"

fun response_status :: "Exn \<Rightarrow> int option" where
  "response_status (AxiosError st m) = st"
| "response_status (PlainError m) = None"

fun err_message :: "Exn \<Rightarrow> string" where
  "err_message (AxiosError st m) = m"
| "err_message (PlainError m) = m"

text \<open>
  The value \<^verbatim>\<open>retriable\<close> of the \<^verbatim>\<open>catch\<close> block of the retry loop, from the two
  watchdog flags and the thrown value.
\<close>

definition retriable :: "bool \<Rightarrow> bool \<Rightarrow> Exn \<Rightarrow> bool" where
  "retriable stall timeout err \<longleftrightarrow>
     (let isAxios = isAxiosError err; st = response_status err
      in stall \<or> timeout \<or> \<not> isAxios \<or> \<not> truthy_num st \<or>
         (case st of None \<Rightarrow> False
          | Some s \<Rightarrow> 500 \<le> s \<or> s = 429 \<or> s = 408 \<or> s = 403))"

subsection \<open>The environment of one upload pipeline\<close>

text \<open>
  This and the next three subsections follow one call of
  \<^verbatim>\<open>uploadChunksSequentiallyWithRetry\<close> on its own, from start to end, with what
  the outside world does meanwhile given beforehand. The array that the call reads
  through \<^verbatim>\<open>uploadsRef.current\<close> is taken from the state, as it is when React has
  rendered since the last update, and no other pipeline of the same file is under way.
  The event loop further below does without both.

  The actions of the row buttons, which the user may take while the pipeline of a file
  is suspended in a request or a timer.
\<close>

datatype Action = Pause uuid | Resume uuid | Cancel uuid

fun applyAction :: "Action \<Rightarrow> ManagerState \<Rightarrow> ManagerState" where
  "applyAction (Pause i) st = pauseUpload i st"
| "applyAction (Resume i) st = resumeUpload i st"
| "applyAction (Cancel i) st = cancelUpload i st"

text \<open>An upload progress event of the request: \<^verbatim>\<open>evt.loaded\<close>, \<^verbatim>\<open>evt.total\<close>.\<close>

record ProgressEvent =
  loaded :: int
  total :: "int option"

text \<open>
  What the outside world does during one pass through the \<^verbatim>\<open>try\<close> block: the user
  actions taken meanwhile, whether \<^verbatim>\<open>apiGetPartUrl\<close> throws, the progress events of
  the \<^verbatim>\<open>PUT\<close>, whether the stall or the hard-timeout watchdog has fired, the outcome
  of the \<^verbatim>\<open>PUT\<close> (rejected with a value, or resolved with the ETag header of the
  response) and the value \<^verbatim>\<open>Math.random()\<close> returns if a backoff delay is computed.
\<close>

record Attempt =
  userActions :: "Action list"
  partUrl :: "Exn option"
  progressEvents :: "ProgressEvent list"
  didStall :: bool
  didTimeout :: bool
  response :: "Exn + string option"
  mathRandom :: real

text \<open>The response of \<^verbatim>\<open>POST /uploads/initiate\<close>.\<close>

record InitResponse =
  init_uploadId :: string
  init_chunkSize :: "int option"
  init_alreadyUploadedParts :: "int list option"
  init_partsETags :: "(string \<rightharpoonup> string) option"
  init_allowed :: "bool option"
  init_reason :: "string option"
  init_remainingBytes :: "int option"

text \<open>
  The effects of a pipeline that the properties below speak about, in the order they
  happen:
  a part URL is requested for a part number, the transfer of a chunk (index, start,
  end) starts, the pipeline sleeps for a backoff delay in milliseconds, a chunk (index)
  is marked uploaded.
\<close>

datatype Event = GetPartUrl int | Put int int int | Sleep int | ChunkUploaded int

subsection \<open>One attempt\<close>

text \<open>The \<^verbatim>\<open>onUploadProgress\<close> callback of the \<^verbatim>\<open>PUT\<close>.\<close>

definition onUploadProgress ::
  "uuid \<Rightarrow> File \<Rightarrow> int \<Rightarrow> ManagerState \<Rightarrow> ProgressEvent \<Rightarrow> ManagerState" where
  "onUploadProgress i f uploadedBytesBefore st evt =
     (if \<not> truthy_num (total evt) then st
      else
        (let chunkUploadedBytes = loaded evt;
             newUploadedBytes = uploadedBytesBefore + chunkUploadedBytes;
             newProgress = (real_of_int newUploadedBytes / real_of_int (size' f)) * 100
         in setUploads (map (\<lambda>u. if id' u = i
              then u\<lparr>uploadedBytes := newUploadedBytes, progress := newProgress\<rparr>
              else u)) st))"

text \<open>The update after a successful \<^verbatim>\<open>PUT\<close> with an ETag.\<close>

definition markChunkUploaded ::
  "uuid \<Rightarrow> ChunkMeta \<Rightarrow> string \<Rightarrow> int \<Rightarrow> ManagerState \<Rightarrow> ManagerState" where
  "markChunkUploaded i chunkMeta etagClean uploadedBytesBefore =
     setUploads (map (\<lambda>u. if id' u \<noteq> i then u
        else
          (let updatedChunks =
                 map (\<lambda>c. if index c = index chunkMeta
                           then c\<lparr>uploaded := True, etag := Some etagClean\<rparr> else c)
                   (chunks u);
               finishedBytes = end' chunkMeta - start chunkMeta;
               newUploadedBytes = uploadedBytesBefore + finishedBytes;
               newProgress = (real_of_int newUploadedBytes / real_of_int (fileSize u)) * 100
           in u\<lparr>chunks := updatedChunks, uploadedBytes := newUploadedBytes,
                 progress := newProgress\<rparr>)))"

text \<open>
  One pass through the \<^verbatim>\<open>try\<close> block for the chunk \<open>chunkMeta\<close> of the record
  \<open>meta\<close>. The result is \<open>Inr ()\<close> when the chunk has been marked uploaded, or
  \<open>Inl (didStall, didTimeout, err)\<close> with what the \<^verbatim>\<open>catch\<close> block then sees; the
  watchdogs are started after the part URL has arrived, so both flags are false when
  \<^verbatim>\<open>apiGetPartUrl\<close> throws.
\<close>

definition tryAttempt ::
  "Attempt \<Rightarrow> uuid \<Rightarrow> UploadFileMeta \<Rightarrow> ChunkMeta \<Rightarrow> ManagerState
     \<Rightarrow> ((bool \<times> bool \<times> Exn) + unit) \<times> ManagerState \<times> Event list" where
  "tryAttempt a i meta chunkMeta st =
     (let partNumber = index chunkMeta + 1;
          st1 = foldl (\<lambda>s act. applyAction act s) st (userActions a)
      in case partUrl a of
           Some e \<Rightarrow> (Inl (False, False, e), st1, [GetPartUrl partNumber])
         | None \<Rightarrow>
             (case file meta of
                None \<Rightarrow> (Inl (False, False, PlainError ''TypeError''), st1,
                          [GetPartUrl partNumber])
              | Some f \<Rightarrow>
                  (case findById i (uploads st1) of
                     None \<Rightarrow> (Inl (False, False, PlainError ''TypeError''), st1,
                               [GetPartUrl partNumber])
                   | Some u \<Rightarrow>
                       (let uploadedBytesBefore = uploadedBytes u;
                            evs = [GetPartUrl partNumber,
                                   Put (index chunkMeta) (start chunkMeta) (end' chunkMeta)];
                            st2 = foldl (onUploadProgress i f uploadedBytesBefore) st1
                                    (progressEvents a)
                        in case response a of
                             Inl e \<Rightarrow> (Inl (didStall a, didTimeout a, e), st2, evs)
                           | Inr etagHeader \<Rightarrow>
                               (case etagHeader of
                                  None \<Rightarrow>
                                    (Inl (didStall a, didTimeout a,
                                          PlainError ''Missing ETag from storage response''),
                                     st2, evs)
                                | Some etagClean \<Rightarrow>
                                    if etagClean = [] then
                                      (Inl (didStall a, didTimeout a,
                                            PlainError ''Missing ETag from storage response''),
                                       st2, evs)
                                    else
                                      (Inr (),
                                       markChunkUploaded i chunkMeta etagClean
                                         uploadedBytesBefore st2,
                                       evs @ [ChunkUploaded (index chunkMeta)]))))))"

subsection \<open>The retry loop of one chunk\<close>

text \<open>
  The delay before the next attempt:
  \<^verbatim>\<open>BACKOFF_BASE_MS * Math.pow(2, attempt) + Math.floor(Math.random() * BACKOFF_JITTER_MS)\<close>.
\<close>

definition backoffDelay :: "nat \<Rightarrow> real \<Rightarrow> int" where
  "backoffDelay attempt r =
     BACKOFF_BASE_MS * 2 ^ attempt + \<lfloor>r * real_of_int BACKOFF_JITTER_MS\<rfloor>"

text \<open>
  \<^verbatim>\<open>while (attempt <= CHUNK_MAX_RETRIES) { try {...} catch {...} }\<close> followed by
  \<^verbatim>\<open>if (lastErr) throw lastErr\<close>, for one chunk; \<open>env k\<close> is pass \<open>k\<close>. The result
  is \<open>Inl err\<close> when \<open>err\<close> is thrown out of the loop and \<open>Inr ()\<close> when the loop is left
  normally, with the state and the events of the loop.
\<close>

function retryLoop ::
  "(nat \<Rightarrow> Attempt) \<Rightarrow> uuid \<Rightarrow> UploadFileMeta \<Rightarrow> ChunkMeta \<Rightarrow> nat \<Rightarrow> Exn option
     \<Rightarrow> ManagerState \<Rightarrow> (Exn + unit) \<times> ManagerState \<times> Event list" where
  "retryLoop env i meta chunkMeta attempt lastErr st =
     (if attempt \<le> CHUNK_MAX_RETRIES then
        (case tryAttempt (env attempt) i meta chunkMeta st of
           (Inr u, st', evs) \<Rightarrow> (Inr (), st', evs)
         | (Inl (stall, timeout, err), st', evs) \<Rightarrow>
             if CHUNK_MAX_RETRIES \<le> attempt \<or> \<not> retriable stall timeout err then
               (Inl err, st', evs)
             else
               (let delay = backoffDelay attempt (mathRandom (env attempt))
                in case retryLoop env i meta chunkMeta (attempt + 1) (Some err) st' of
                     (r, st'', evs') \<Rightarrow> (r, st'', evs @ [Sleep delay] @ evs')))
      else
        (case lastErr of
           Some err \<Rightarrow> (Inl err, st, [])
         | None \<Rightarrow> (Inr (), st, [])))"
  by pat_completeness auto
termination
  by (relation "measure (\<lambda>(env, i, meta, chunkMeta, attempt, lastErr, st).
        Suc CHUNK_MAX_RETRIES - attempt)") auto

declare retryLoop.simps [simp del]

subsection \<open>The loop over the chunks\<close>

text \<open>
  \<^verbatim>\<open>for (let i = 0; i < meta.chunks.length; i++)\<close> of
  \<^verbatim>\<open>uploadChunksSequentiallyWithRetry\<close>. The loop reads the record anew in every
  round and tests its position \<open>p\<close> against the chunk list read in the round before,
  so its end is not evident from its text and the result is an option. \<open>tr\<close> collects
  the events so far.
\<close>

partial_function (option) chunkLoop ::
  "(nat \<Rightarrow> nat \<Rightarrow> Attempt) \<Rightarrow> uuid \<Rightarrow> nat \<Rightarrow> UploadFileMeta \<Rightarrow> ManagerState \<Rightarrow> Event list
     \<Rightarrow> ((Exn + unit) \<times> ManagerState \<times> Event list) option" where
  "chunkLoop env i p meta st tr =
     (if p < length (chunks meta) then
        (case findById i (uploads st) of
           None \<Rightarrow> Some (Inl (PlainError ''TypeError''), st, tr)
         | Some meta' \<Rightarrow>
             if status meta' = Paused \<or> status meta' = Canceled then
               Some (Inl (PlainError ''canceled''), st, tr)
             else if length (chunks meta') \<le> p then
               Some (Inl (PlainError ''TypeError''), st, tr)
             else
               (let chunkMeta = chunks meta' ! p in
                if uploaded chunkMeta then chunkLoop env i (p + 1) meta' st tr
                else
                  (let r = retryLoop (env p) i meta' chunkMeta 0 None st in
                   case fst r of
                     Inl err \<Rightarrow> Some (Inl err, fst (snd r), tr @ snd (snd r))
                   | Inr u \<Rightarrow>
                       chunkLoop env i (p + 1) meta' (fst (snd r)) (tr @ snd (snd r)))))
      else Some (Inr (), st, tr))"

declare chunkLoop.simps [code]

text \<open>
  \<^verbatim>\<open>uploadChunksSequentiallyWithRetry(id)\<close>; \<open>env p k\<close> is pass \<open>k\<close> through the
  \<^verbatim>\<open>try\<close> block for the chunk at position \<open>p\<close>.
\<close>

definition uploadChunksSequentiallyWithRetry ::
  "(nat \<Rightarrow> nat \<Rightarrow> Attempt) \<Rightarrow> uuid \<Rightarrow> ManagerState
     \<Rightarrow> ((Exn + unit) \<times> ManagerState \<times> Event list) option" where
  "uploadChunksSequentiallyWithRetry env i st =
     (case findById i (uploads st) of
        None \<Rightarrow> Some (Inr (), st, [])
      | Some meta \<Rightarrow>
          if \<not> truthy_str (uploadId meta) then
            Some (Inl (PlainError ''Missing uploadId''), st, [])
          else if file meta = None then
            Some (Inl (PlainError (''Missing File; use '' @ [CHR 0x27] @
              ''Select file to resume'' @ [CHR 0x27])), st, [])
          else
            (let st1 = setUploads (map (\<lambda>u. if id' u = i then u\<lparr>controller := True\<rparr>
                                             else u)) st
             in case findById i (uploads st1) of
                  None \<Rightarrow> Some (Inl (PlainError ''TypeError''), st1, [])
                | Some meta1 \<Rightarrow> chunkLoop env i 0 meta1 st1 []))"

subsection \<open>The end of a pipeline\<close>

text \<open>
  The end of the \<^verbatim>\<open>try\<close> block of \<^verbatim>\<open>startFileUpload\<close>, with the array of the
  state for \<^verbatim>\<open>uploadsRef.current\<close>.
\<close>

definition startFileUpload_done :: "uuid \<Rightarrow> ManagerState \<Rightarrow> ManagerState" where
  "startFileUpload_done i st =
     (let st1 = setUploads (map (\<lambda>u.
                  if id' u = i \<and> status u \<noteq> Paused \<and> status u \<noteq> Canceled
                  then u\<lparr>status := Done, controller := False, completing := False,
                         progress := 100\<rparr>
                  else u)) st;
          finishedName = (case findById i (uploads st1) of
                            None \<Rightarrow> ''file''
                          | Some u \<Rightarrow> if fileName u = [] then ''file'' else fileName u)
      in push (check_mark @ '' Uploaded '' @ finishedName) Success st1)"

text \<open>
  The \<^verbatim>\<open>catch\<close> block of \<^verbatim>\<open>startFileUpload\<close>, with the array of the state for
  \<^verbatim>\<open>uploadsRef.current\<close>.
\<close>

definition startFileUpload_catch :: "Exn \<Rightarrow> uuid \<Rightarrow> ManagerState \<Rightarrow> ManagerState" where
  "startFileUpload_catch err i st =
     (let cur = map_option status (findById i (uploads st));
          wasPaused = (cur = Some Paused);
          wasCanceled = (cur = Some Canceled)
      in if wasPaused \<or> wasCanceled then st
         else
           (let msg = (if err_message err = [] then ''Upload failed'' else err_message err)
            in push (warning_sign @ '' '' @ msg) Failure
                 (setUploads (map (\<lambda>u. if id' u = i
                    then u\<lparr>status := Error, error := Some msg, controller := False,
                           completing := False\<rparr>
                    else u)) st)))"

subsection \<open>The scheduler as a transition system\<close>

text \<open>
  What changes the \<^verbatim>\<open>uploads\<close> array in a way the promotion effect looks at: the
  user's enqueue, pause, resume, cancel and recover actions, and a pipeline that
  reaches the end of its \<^verbatim>\<open>try\<close> block or its \<^verbatim>\<open>catch\<close> block. The effect runs
  after each of them.
\<close>

datatype SchedulerEvent =
    Enqueue "File list"
  | User Action
  | Recover uuid File
  | PipelineDone uuid
  | PipelineFailed uuid Exn

fun applyEvent :: "SchedulerEvent \<Rightarrow> ManagerState \<Rightarrow> ManagerState" where
  "applyEvent (Enqueue fs) st = addFilesToQueue fs st"
| "applyEvent (User a) st = applyAction a st"
| "applyEvent (Recover i f) st = recoverMissingFile i f st"
| "applyEvent (PipelineDone i) st = startFileUpload_done i st"
| "applyEvent (PipelineFailed i e) st = startFileUpload_catch e i st"

definition step :: "ManagerState \<Rightarrow> SchedulerEvent \<Rightarrow> ManagerState" where
  "step st ev = promoteQueued (applyEvent ev st)"

definition uploadingCount :: "ManagerState \<Rightarrow> nat" where
  "uploadingCount st = length (filter (\<lambda>u. status u = Uploading) (uploads st))"

text \<open>
  The identifiers of the records are pairwise distinct and have all been drawn from the
  supply, as holds for records that \<^verbatim>\<open>createUUID\<close> has named.
\<close>

definition distinctIds :: "ManagerState \<Rightarrow> bool" where
  "distinctIds st \<longleftrightarrow>
     distinct (map id' (uploads st)) \<and> (\<forall>u\<in>set (uploads st). id' u < uuids st)"

subsection \<open>Pipelines in the event loop of the browser\<close>

text \<open>
  The subsections on the attempt, the retry loop and the chunk loop follow one call of
  \<^verbatim>\<open>uploadChunksSequentiallyWithRetry\<close> on its own. This subsection follows the
  component as the browser runs it, with every call of \<^verbatim>\<open>startFileUpload\<close> that
  is under way.

  A call of \<^verbatim>\<open>startFileUpload\<close> runs until it awaits a request
  (\<^verbatim>\<open>apiInitiateUpload\<close>, \<^verbatim>\<open>apiGetPartUrl\<close>, \<^verbatim>\<open>axios.put\<close>,
  \<^verbatim>\<open>apiCompleteUpload\<close>) or a timer (\<^verbatim>\<open>sleep\<close>), and goes on in a later task of
  the event loop, when that request or timer has settled. An \<^verbatim>\<open>await\<close> of
  \<^verbatim>\<open>ensureUploadSession\<close>, \<^verbatim>\<open>uploadChunksSequentiallyWithRetry\<close> or
  \<^verbatim>\<open>finalizeUpload\<close> gives no other task a turn: when the awaited function ends, the
  caller goes on in a microtask of the same task.

  \<^verbatim>\<open>setUploads\<close> queues an update. React renders and runs the two effects of the
  component that depend on \<^verbatim>\<open>uploads\<close>, of which the first assigns
  \<^verbatim>\<open>uploadsRef.current = uploads\<close> and the second promotes queued files, when the
  code that has queued the update has run up to its suspension or end, and before the
  next request or timer settles. So what a
  pipeline reads through \<^verbatim>\<open>uploadsRef.current\<close> is the array as React has rendered
  it last, without the updates that the pipeline has queued since it went on. The
  functions of this subsection take that array as their argument \<open>current\<close>; the
  state they are given and return holds the array with the queued updates applied.

  Where a call of \<^verbatim>\<open>startFileUpload(id)\<close> is suspended, with the values of its local
  variables \<^verbatim>\<open>meta\<close>, \<^verbatim>\<open>i\<close>, \<^verbatim>\<open>chunkMeta\<close>, \<^verbatim>\<open>attempt\<close> and, in a
  transfer, \<^verbatim>\<open>uploadedBytesBefore\<close>, in a delay, \<^verbatim>\<open>lastErr\<close>; \<open>Settled\<close> is a
  call that has ended.
\<close>

datatype Pipeline =
    AwaitInitiate uuid File
  | AwaitPartUrl uuid UploadFileMeta nat ChunkMeta nat
  | AwaitPut uuid UploadFileMeta nat ChunkMeta nat int
  | AwaitSleep uuid UploadFileMeta nat ChunkMeta nat Exn
  | AwaitComplete uuid
  | Settled

text \<open>
  How a stretch of an async function ends: with a thrown value, with a return, or
  suspended in a request or timer.
\<close>

datatype Step = Thrown Exn | Returned | Suspended Pipeline

text \<open>
  \<^verbatim>\<open>ensureUploadSession(id)\<close> up to the call of \<^verbatim>\<open>apiInitiateUpload\<close>, whose
  arguments read the name, type and size of \<^verbatim>\<open>meta.file\<close>.
\<close>

definition ensureUploadSession :: "UploadFileMeta list \<Rightarrow> uuid \<Rightarrow> Step" where
  "ensureUploadSession current i =
     (case findById i current of
        None \<Rightarrow> Returned
      | Some meta \<Rightarrow>
          if file meta = None \<and> status meta \<noteq> AwaitingFile then
            Thrown (PlainError ''File not available (needs user to reselect)'')
          else if truthy_str (uploadId meta) \<and> 0 < length (chunks meta) then Returned
          else
            (case file meta of
               None \<Rightarrow> Thrown (PlainError ''TypeError'')
             | Some f \<Rightarrow> Suspended (AwaitInitiate i f)))"

text \<open>
  \<^verbatim>\<open>ensureUploadSession(id)\<close> from the answer of \<^verbatim>\<open>apiInitiateUpload\<close> on: a
  rejection \<open>Inl e\<close> or the response \<open>Inr init\<close>. It calls \<^verbatim>\<open>buildChunks\<close> with the
  chunk size the backend dictates, so it ends only if that call does.
\<close>

definition ensureUploadSession_initiated ::
  "uuid \<Rightarrow> File \<Rightarrow> Exn + InitResponse \<Rightarrow> ManagerState \<Rightarrow> (Step \<times> ManagerState) option" where
  "ensureUploadSession_initiated i f answer st =
     (case answer of
        Inl e \<Rightarrow> Some (Thrown e, st)
      | Inr init \<Rightarrow>
          if init_allowed init = Some False then
            Some (Thrown (PlainError
                    (if truthy_str (init_reason init) then the (init_reason init)
                     else ''Server rejected this file'')), st)
          else if (case init_remainingBytes init of
                     None \<Rightarrow> False | Some r \<Rightarrow> r < size' f) then
            Some (Thrown (PlainError ''Insufficient quota to upload this file''), st)
          else
            (let cs = (if truthy_num (init_chunkSize init)
                       then the (init_chunkSize init) else DEFAULT_CHUNK_SIZE)
             in case buildChunks (size' f) cs
                       (case init_alreadyUploadedParts init of
                          None \<Rightarrow> [] | Some ps \<Rightarrow> ps)
                       (case init_partsETags init of
                          None \<Rightarrow> Map.empty | Some m \<Rightarrow> m) of
                  None \<Rightarrow> None
                | Some cks \<Rightarrow>
                    (let resumedUploadedBytes =
                           sum_list (map (\<lambda>c. end' c - start c) (filter uploaded cks));
                         resumedProgress =
                           (real_of_int resumedUploadedBytes / real_of_int (size' f)) * 100
                     in Some (Returned,
                          setUploads (map (\<lambda>u. if id' u = i
                            then u\<lparr>uploadId := Some (init_uploadId init),
                                   chunkSize := cs, chunks := cks,
                                   uploadedBytes := resumedUploadedBytes,
                                   progress := resumedProgress\<rparr>
                            else u)) st))))"

text \<open>
  The \<^verbatim>\<open>catch\<close> block of the retry loop: the error is thrown on, or the pipeline
  sleeps for the backoff delay; \<open>rnd\<close> is the value of \<^verbatim>\<open>Math.random()\<close>.
\<close>

definition uploadChunks_catch ::
  "uuid \<Rightarrow> UploadFileMeta \<Rightarrow> nat \<Rightarrow> ChunkMeta \<Rightarrow> nat \<Rightarrow> bool \<Rightarrow> bool \<Rightarrow> Exn \<Rightarrow> real
     \<Rightarrow> Step \<times> Event list" where
  "uploadChunks_catch i meta p chunkMeta attempt stall timeout err rnd =
     (if CHUNK_MAX_RETRIES \<le> attempt \<or> \<not> retriable stall timeout err then (Thrown err, [])
      else (Suspended (AwaitSleep i meta p chunkMeta attempt err),
            [Sleep (backoffDelay attempt rnd)]))"

text \<open>
  After \<^verbatim>\<open>await sleep(delay)\<close>: \<^verbatim>\<open>attempt++\<close>, the test of the \<^verbatim>\<open>while\<close> loop
  and either the next pass through the \<^verbatim>\<open>try\<close> block, which starts by requesting a
  part URL, or \<^verbatim>\<open>if (lastErr) throw lastErr\<close>.
\<close>

definition uploadChunks_slept ::
  "uuid \<Rightarrow> UploadFileMeta \<Rightarrow> nat \<Rightarrow> ChunkMeta \<Rightarrow> nat \<Rightarrow> Exn \<Rightarrow> Step \<times> Event list" where
  "uploadChunks_slept i meta p chunkMeta attempt lastErr =
     (if attempt + 1 \<le> CHUNK_MAX_RETRIES then
        (Suspended (AwaitPartUrl i meta p chunkMeta (attempt + 1)),
         [GetPartUrl (index chunkMeta + 1)])
      else (Thrown lastErr, []))"

text \<open>
  The \<^verbatim>\<open>for\<close> loop of \<^verbatim>\<open>uploadChunksSequentiallyWithRetry\<close> from the test
  \<^verbatim>\<open>i < meta.chunks.length\<close> on, with \<open>p\<close> for \<^verbatim>\<open>i\<close>, up to the first request of a
  part URL.
\<close>

function uploadChunks_for ::
  "UploadFileMeta list \<Rightarrow> uuid \<Rightarrow> UploadFileMeta \<Rightarrow> nat \<Rightarrow> Step \<times> Event list" where
  "uploadChunks_for current i meta p =
     (if p < length (chunks meta) then
        (case findById i current of
           None \<Rightarrow> (Thrown (PlainError ''TypeError''), [])
         | Some meta' \<Rightarrow>
             if status meta' = Paused \<or> status meta' = Canceled then
               (Thrown (PlainError ''canceled''), [])
             else if length (chunks meta') \<le> p then (Thrown (PlainError ''TypeError''), [])
             else
               (let chunkMeta = chunks meta' ! p in
                if uploaded chunkMeta then uploadChunks_for current i meta' (p + 1)
                else (Suspended (AwaitPartUrl i meta' p chunkMeta 0),
                      [GetPartUrl (index chunkMeta + 1)])))
      else (Returned, []))"
  by pat_completeness auto
termination
  by (relation "measure (\<lambda>(current, i, meta, p).
        length (chunks (the (findById i current))) - p)") auto

declare uploadChunks_for.simps [simp del]

text \<open>
  \<^verbatim>\<open>uploadChunksSequentiallyWithRetry(id)\<close> from its first line up to the first
  request of a part URL.
\<close>

definition uploadChunks_start ::
  "UploadFileMeta list \<Rightarrow> uuid \<Rightarrow> ManagerState \<Rightarrow> Step \<times> ManagerState \<times> Event list" where
  "uploadChunks_start current i st =
     (case findById i current of
        None \<Rightarrow> (Returned, st, [])
      | Some meta \<Rightarrow>
          if \<not> truthy_str (uploadId meta) then
            (Thrown (PlainError ''Missing uploadId''), st, [])
          else if file meta = None then
            (Thrown (PlainError (''Missing File; use '' @ [CHR 0x27] @
               ''Select file to resume'' @ [CHR 0x27])), st, [])
          else
            (let st1 = setUploads (map (\<lambda>u. if id' u = i then u\<lparr>controller := True\<rparr>
                                             else u)) st
             in case findById i current of
                  None \<Rightarrow> (Thrown (PlainError ''TypeError''), st1, [])
                | Some meta1 \<Rightarrow>
                    (fst (uploadChunks_for current i meta1 0), st1,
                     snd (uploadChunks_for current i meta1 0))))"

text \<open>
  From the answer of \<^verbatim>\<open>apiGetPartUrl\<close> on: a rejection \<open>Some e\<close>, which the
  \<^verbatim>\<open>catch\<close> block sees with both watchdog flags unset, or a URL; then the slice of
  the file, the snapshot \<^verbatim>\<open>uploadedBytesBefore\<close> and the start of the transfer.
\<close>

definition uploadChunks_partUrl ::
  "UploadFileMeta list \<Rightarrow> uuid \<Rightarrow> UploadFileMeta \<Rightarrow> nat \<Rightarrow> ChunkMeta \<Rightarrow> nat \<Rightarrow> Exn option \<Rightarrow> real
     \<Rightarrow> Step \<times> Event list" where
  "uploadChunks_partUrl current i meta p chunkMeta attempt answer rnd =
     (case answer of
        Some e \<Rightarrow> uploadChunks_catch i meta p chunkMeta attempt False False e rnd
      | None \<Rightarrow>
          (case file meta of
             None \<Rightarrow> uploadChunks_catch i meta p chunkMeta attempt False False
                       (PlainError ''TypeError'') rnd
           | Some f \<Rightarrow>
               (case findById i current of
                  None \<Rightarrow> uploadChunks_catch i meta p chunkMeta attempt False False
                            (PlainError ''TypeError'') rnd
                | Some u \<Rightarrow>
                    (Suspended (AwaitPut i meta p chunkMeta attempt (uploadedBytes u)),
                     [Put (index chunkMeta) (start chunkMeta) (end' chunkMeta)]))))"

text \<open>
  From the answer of \<^verbatim>\<open>axios.put\<close> on, with the watchdog flags as they are then: a
  rejection \<open>Inl e\<close>, or a response with its ETag header. After a response with an
  ETag the chunk is marked and the \<^verbatim>\<open>for\<close> loop goes on with \<^verbatim>\<open>i++\<close>.
\<close>

definition uploadChunks_put ::
  "UploadFileMeta list \<Rightarrow> uuid \<Rightarrow> UploadFileMeta \<Rightarrow> nat \<Rightarrow> ChunkMeta \<Rightarrow> nat \<Rightarrow> int
     \<Rightarrow> bool \<Rightarrow> bool \<Rightarrow> Exn + string option \<Rightarrow> real \<Rightarrow> ManagerState
     \<Rightarrow> Step \<times> ManagerState \<times> Event list" where
  "uploadChunks_put current i meta p chunkMeta attempt uploadedBytesBefore stall timeout
       answer rnd st =
     (let failed = (\<lambda>err.
            (fst (uploadChunks_catch i meta p chunkMeta attempt stall timeout err rnd), st,
             snd (uploadChunks_catch i meta p chunkMeta attempt stall timeout err rnd)))
      in case answer of
           Inl e \<Rightarrow> failed e
         | Inr etagHeader \<Rightarrow>
             (case etagHeader of
                None \<Rightarrow> failed (PlainError ''Missing ETag from storage response'')
              | Some etagClean \<Rightarrow>
                  if etagClean = [] then
                    failed (PlainError ''Missing ETag from storage response'')
                  else
                    (fst (uploadChunks_for current i meta (p + 1)),
                     markChunkUploaded i chunkMeta etagClean uploadedBytesBefore st,
                     ChunkUploaded (index chunkMeta)
                       # snd (uploadChunks_for current i meta (p + 1)))))"

text \<open>
  \<^verbatim>\<open>finalizeUpload(id)\<close> up to the call of \<^verbatim>\<open>apiCompleteUpload\<close>, and from its
  answer on.
\<close>

definition finalizeUpload :: "UploadFileMeta list \<Rightarrow> uuid \<Rightarrow> ManagerState \<Rightarrow> Step \<times> ManagerState" where
  "finalizeUpload current i st =
     (case findById i current of
        None \<Rightarrow> (Returned, st)
      | Some meta \<Rightarrow>
          if \<not> truthy_str (uploadId meta) then (Thrown (PlainError ''Missing uploadId''), st)
          else if list_ex (\<lambda>c. \<not> uploaded c) (chunks meta) then (Returned, st)
          else
            (Suspended (AwaitComplete i),
             setUploads (map (\<lambda>u. if id' u = i then u\<lparr>completing := True\<rparr> else u)) st))"

definition finalizeUpload_completed ::
  "uuid \<Rightarrow> Exn + string \<Rightarrow> ManagerState \<Rightarrow> Step \<times> ManagerState" where
  "finalizeUpload_completed i answer st =
     (case answer of
        Inl e \<Rightarrow> (Thrown e, st)
      | Inr url \<Rightarrow>
          (Returned,
           setUploads (map (\<lambda>u. if id' u = i
             then u\<lparr>fileUrl := Some url, completing := False\<rparr> else u)) st))"

text \<open>
  The end of the \<^verbatim>\<open>try\<close> block and the \<^verbatim>\<open>catch\<close> block of
  \<^verbatim>\<open>startFileUpload\<close>, reading \<^verbatim>\<open>uploadsRef.current\<close>.
\<close>

definition startFileUpload_resolved ::
  "UploadFileMeta list \<Rightarrow> uuid \<Rightarrow> ManagerState \<Rightarrow> ManagerState" where
  "startFileUpload_resolved current i st =
     (let st1 = setUploads (map (\<lambda>u.
                  if id' u = i \<and> status u \<noteq> Paused \<and> status u \<noteq> Canceled
                  then u\<lparr>status := Done, controller := False, completing := False,
                         progress := 100\<rparr>
                  else u)) st;
          finishedName = (case findById i current of
                            None \<Rightarrow> ''file''
                          | Some u \<Rightarrow> if fileName u = [] then ''file'' else fileName u)
      in push (check_mark @ '' Uploaded '' @ finishedName) Success st1)"

definition startFileUpload_rejected ::
  "UploadFileMeta list \<Rightarrow> Exn \<Rightarrow> uuid \<Rightarrow> ManagerState \<Rightarrow> ManagerState" where
  "startFileUpload_rejected current err i st =
     (let wasPaused = (map_option status (findById i current) = Some Paused);
          wasCanceled = (map_option status (findById i current) = Some Canceled)
      in if wasPaused \<or> wasCanceled then st
         else
           (let msg = (if err_message err = [] then ''Upload failed'' else err_message err)
            in push (warning_sign @ '' '' @ msg) Failure
                 (setUploads (map (\<lambda>u. if id' u = i
                    then u\<lparr>status := Error, error := Some msg, controller := False,
                           completing := False\<rparr>
                    else u)) st)))"

text \<open>
  The \<^verbatim>\<open>try\<close> block of \<^verbatim>\<open>startFileUpload\<close> after each of its three awaited
  calls has ended in the way \<open>s\<close>: a thrown value goes to the \<^verbatim>\<open>catch\<close> block, a
  return leads to the next call.
\<close>

definition startFileUpload_finalized ::
  "UploadFileMeta list \<Rightarrow> uuid \<Rightarrow> Step \<Rightarrow> ManagerState \<Rightarrow> Pipeline \<times> ManagerState" where
  "startFileUpload_finalized current i s st =
     (case s of
        Thrown e \<Rightarrow> (Settled, startFileUpload_rejected current e i st)
      | Suspended k \<Rightarrow> (k, st)
      | Returned \<Rightarrow> (Settled, startFileUpload_resolved current i st))"

definition startFileUpload_uploaded ::
  "UploadFileMeta list \<Rightarrow> uuid \<Rightarrow> Step \<Rightarrow> ManagerState \<Rightarrow> Pipeline \<times> ManagerState" where
  "startFileUpload_uploaded current i s st =
     (case s of
        Thrown e \<Rightarrow> (Settled, startFileUpload_rejected current e i st)
      | Suspended k \<Rightarrow> (k, st)
      | Returned \<Rightarrow>
          startFileUpload_finalized current i (fst (finalizeUpload current i st))
            (snd (finalizeUpload current i st)))"

definition startFileUpload_ensured ::
  "UploadFileMeta list \<Rightarrow> uuid \<Rightarrow> Step \<Rightarrow> ManagerState
     \<Rightarrow> Pipeline \<times> ManagerState \<times> Event list" where
  "startFileUpload_ensured current i s st =
     (case s of
        Thrown e \<Rightarrow> (Settled, startFileUpload_rejected current e i st, [])
      | Suspended k \<Rightarrow> (k, st, [])
      | Returned \<Rightarrow>
          (let r = uploadChunks_start current i st;
               q = startFileUpload_uploaded current i (fst r) (fst (snd r))
           in (fst q, snd q, snd (snd r))))"

text \<open>
  \<^verbatim>\<open>startFileUpload(id)\<close> from its call up to its first suspension in a request.
\<close>

definition startFileUpload ::
  "UploadFileMeta list \<Rightarrow> uuid \<Rightarrow> ManagerState \<Rightarrow> Pipeline \<times> ManagerState \<times> Event list" where
  "startFileUpload current i st =
     startFileUpload_ensured current i (ensureUploadSession current i)
       (startFileUpload_begin i st)"

text \<open>
  What a request or timer delivers when it settles: the answer of
  \<^verbatim>\<open>apiInitiateUpload\<close>, of \<^verbatim>\<open>apiGetPartUrl\<close> (a rejection or none), an upload
  progress event of the \<^verbatim>\<open>PUT\<close>, the answer of the \<^verbatim>\<open>PUT\<close> (with the flags
  \<^verbatim>\<open>didStall\<close> and \<^verbatim>\<open>didTimeout\<close> of the attempt, and a rejection or the ETag
  header of the response), the end of a \<^verbatim>\<open>sleep\<close>, and the answer of
  \<^verbatim>\<open>apiCompleteUpload\<close>.
\<close>

datatype Completion =
    Initiated "Exn + InitResponse"
  | GotPartUrl "Exn option"
  | Progressed ProgressEvent
  | PutSettled bool bool "Exn + string option"
  | Woke
  | Completed "Exn + string"

text \<open>
  A suspended pipeline goes on with what has settled, up to its next suspension or its
  end. A completion that the pipeline is not waiting for leaves it as it is.
\<close>

fun resume ::
  "UploadFileMeta list \<Rightarrow> Pipeline \<Rightarrow> Completion \<Rightarrow> real \<Rightarrow> ManagerState
     \<Rightarrow> (Pipeline \<times> ManagerState \<times> Event list) option" where
  "resume current (AwaitInitiate i f) (Initiated answer) rnd st =
     (case ensureUploadSession_initiated i f answer st of
        None \<Rightarrow> None
      | Some (s, st1) \<Rightarrow> Some (startFileUpload_ensured current i s st1))"
| "resume current (AwaitPartUrl i meta p chunkMeta attempt) (GotPartUrl answer) rnd st =
     (let r = uploadChunks_partUrl current i meta p chunkMeta attempt answer rnd;
          q = startFileUpload_uploaded current i (fst r) st
      in Some (fst q, snd q, snd r))"
| "resume current (AwaitPut i meta p chunkMeta attempt uploadedBytesBefore) (Progressed evt)
       rnd st =
     (case file meta of
        None \<Rightarrow> Some (AwaitPut i meta p chunkMeta attempt uploadedBytesBefore, st, [])
      | Some f \<Rightarrow>
          Some (AwaitPut i meta p chunkMeta attempt uploadedBytesBefore,
                onUploadProgress i f uploadedBytesBefore st evt, []))"
| "resume current (AwaitPut i meta p chunkMeta attempt uploadedBytesBefore)
       (PutSettled stall timeout answer) rnd st =
     (let r = uploadChunks_put current i meta p chunkMeta attempt uploadedBytesBefore
                stall timeout answer rnd st;
          q = startFileUpload_uploaded current i (fst r) (fst (snd r))
      in Some (fst q, snd q, snd (snd r)))"
| "resume current (AwaitSleep i meta p chunkMeta attempt lastErr) Woke rnd st =
     (let r = uploadChunks_slept i meta p chunkMeta attempt lastErr;
          q = startFileUpload_uploaded current i (fst r) st
      in Some (fst q, snd q, snd r))"
| "resume current (AwaitComplete i) (Completed answer) rnd st =
     (let r = finalizeUpload_completed i answer st;
          q = startFileUpload_finalized current i (fst r) (snd r)
      in Some (fst q, snd q, []))"
| "resume current k c rnd st = Some (k, st, [])"

text \<open>
  The component between two tasks: the state, \<^verbatim>\<open>uploadsRef.current\<close>, the calls of
  \<^verbatim>\<open>startFileUpload\<close> made so far, in the order of their start, and the events of
  all pipelines so far.
\<close>

record Browser =
  manager :: ManagerState
  uploadsRef :: "UploadFileMeta list"
  pipelines :: "Pipeline list"
  happened :: "Event list"

text \<open>The promotion effect calls \<^verbatim>\<open>startFileUpload(u.id)\<close>.\<close>

definition launch :: "Browser \<Rightarrow> uuid \<Rightarrow> Browser" where
  "launch b i =
     (let r = startFileUpload (uploadsRef b) i (manager b)
      in b\<lparr>manager := fst (snd r), pipelines := pipelines b @ [fst r],
           happened := happened b @ snd (snd r)\<rparr>)"

text \<open>
  React renders and runs the two effects that depend on \<^verbatim>\<open>uploads\<close>:
  \<^verbatim>\<open>uploadsRef.current = uploads\<close> and the promotion of queued files. The calls of \<^verbatim>\<open>startFileUpload\<close> queue updates, so
  React renders again, until the promotion effect starts nothing.
\<close>

partial_function (option) render :: "Browser \<Rightarrow> Browser option" where
  "render b =
     (let b1 = b\<lparr>uploadsRef := uploads (manager b)\<rparr>;
          current = uploadsRef b1;
          uploadingCount = length (filter (\<lambda>u. status u = Uploading) current);
          capacity = MAX_PARALLEL_FILES - int uploadingCount;
          nextToStart = take (nat capacity)
                          (filter (\<lambda>u. status u = Queued \<and> file u \<noteq> None) current)
      in if capacity \<le> 0 \<or> nextToStart = [] then Some b1
         else render (foldl (\<lambda>b' u. launch b' (id' u)) b1 nextToStart))"

declare render.simps [code]

text \<open>
  The tasks of the event loop: the user drops files, presses a row button, or reselects
  the file of a record; or a request or timer of the \<open>n\<close>-th pipeline settles, where the
  number is the value of \<^verbatim>\<open>Math.random()\<close> if the pipeline then computes a delay.
\<close>

datatype Task =
    Drop "File list"
  | Press Action
  | Reselect uuid File
  | Settle nat Completion real

definition perform :: "Browser \<Rightarrow> Task \<Rightarrow> Browser option" where
  "perform b t =
     (case t of
        Drop fs \<Rightarrow> render (b\<lparr>manager := addFilesToQueue fs (manager b)\<rparr>)
      | Press a \<Rightarrow> render (b\<lparr>manager := applyAction a (manager b)\<rparr>)
      | Reselect i f \<Rightarrow> render (b\<lparr>manager := recoverMissingFile i f (manager b)\<rparr>)
      | Settle n c rnd \<Rightarrow>
          if n < length (pipelines b) then
            (case resume (uploadsRef b) (pipelines b ! n) c rnd (manager b) of
               None \<Rightarrow> None
             | Some r \<Rightarrow>
                 render (b\<lparr>manager := fst (snd r), pipelines := (pipelines b)[n := fst r],
                           happened := happened b @ snd (snd r)\<rparr>))
          else Some b)"

fun perform_all :: "Browser \<Rightarrow> Task list \<Rightarrow> Browser option" where
  "perform_all b [] = Some b"
| "perform_all b (t # ts) =
     (case perform b t of None \<Rightarrow> None | Some b' \<Rightarrow> perform_all b' ts)"

subsection \<open>Reading a sequence of events\<close>

text \<open>
  The number of attempts in a sequence of events (every pass through the \<^verbatim>\<open>try\<close>
  block starts by requesting a part URL), the backoff delays in it, and the indices of
  the chunks whose transfers start in it, each in the order of the events.
\<close>

fun attemptCount :: "Event list \<Rightarrow> nat" where
  "attemptCount [] = 0"
| "attemptCount (GetPartUrl pn # evs) = Suc (attemptCount evs)"
| "attemptCount (ev # evs) = attemptCount evs"

fun sleeps :: "Event list \<Rightarrow> int list" where
  "sleeps [] = []"
| "sleeps (Sleep d # evs) = d # sleeps evs"
| "sleeps (ev # evs) = sleeps evs"

fun puts :: "Event list \<Rightarrow> int list" where
  "puts [] = []"
| "puts (Put ix s e # evs) = ix # puts evs"
| "puts (ev # evs) = puts evs"

subsection \<open>Example inputs\<close>

text \<open>
  A 10-byte file planned as one chunk, its record while it is uploading, and attempts
  that fail with an HTTP status or succeed with an ETag, without progress events, user
  actions or jitter.
\<close>

definition exampleFile :: File where
  "exampleFile = \<lparr>name = ''a.bin'', size' = 10, lastModified = 1\<rparr>"

definition exampleChunk :: ChunkMeta where
  "exampleChunk = \<lparr>index = 0, start = 0, end' = 10, uploaded = False, etag = None\<rparr>"

definition exampleRecord :: UploadFileMeta where
  "exampleRecord =
     \<lparr>id' = 0, file = Some exampleFile, fileName = ''a.bin'', fileSize = 10,
      fileLastModified = Some 1, status = Uploading, progress = 0, uploadedBytes = 0,
      uploadId = Some ''u1'', chunkSize = 10, chunks = [exampleChunk], error = None,
      controller = True, completing = False, fileUrl = None\<rparr>"

definition exampleState :: ManagerState where
  "exampleState = \<lparr>uploads = [exampleRecord], queue = [], uuids = 1\<rparr>"

definition failWith :: "int \<Rightarrow> string \<Rightarrow> Attempt" where
  "failWith s m =
     \<lparr>userActions = [], partUrl = None, progressEvents = [], didStall = False,
      didTimeout = False, response = Inl (AxiosError (Some s) m), mathRandom = 0\<rparr>"

definition succeedWith :: "string \<Rightarrow> Attempt" where
  "succeedWith e =
     \<lparr>userActions = [], partUrl = None, progressEvents = [], didStall = False,
      didTimeout = False, response = Inr (Some e), mathRandom = 0\<rparr>"

text \<open>
  A 25-byte file planned with chunk size 10 whose part 2 the backend has reported as
  uploaded, as \<^verbatim>\<open>buildChunks(25, 10, [2], {"2": "e1"})\<close> plans it, with the 10
  bytes of that part counted.
\<close>

definition resumedRecord :: UploadFileMeta where
  "resumedRecord =
     \<lparr>id' = 0, file = Some \<lparr>name = ''b.bin'', size' = 25, lastModified = 1\<rparr>,
      fileName = ''b.bin'', fileSize = 25, fileLastModified = Some 1, status = Uploading,
      progress = 40, uploadedBytes = 10, uploadId = Some ''u2'', chunkSize = 10,
      chunks = [\<lparr>index = 0, start = 0, end' = 10, uploaded = False, etag = None\<rparr>,
                \<lparr>index = 1, start = 10, end' = 20, uploaded = True, etag = Some ''e1''\<rparr>,
                \<lparr>index = 2, start = 20, end' = 25, uploaded = False, etag = None\<rparr>],
      error = None, controller = False, completing = False, fileUrl = None\<rparr>"

text \<open>
  A 1 MiB file planned as four chunks of 256 KiB, none of them uploaded.
\<close>

definition megaRecord :: UploadFileMeta where
  "megaRecord =
     \<lparr>id' = 0, file = Some \<lparr>name = ''m.bin'', size' = 1048576, lastModified = 1\<rparr>,
      fileName = ''m.bin'', fileSize = 1048576, fileLastModified = Some 1, status = Uploading,
      progress = 0, uploadedBytes = 0, uploadId = Some ''u3'', chunkSize = 262144,
      chunks = [\<lparr>index = 0, start = 0, end' = 262144, uploaded = False, etag = None\<rparr>,
                \<lparr>index = 1, start = 262144, end' = 524288, uploaded = False, etag = None\<rparr>,
                \<lparr>index = 2, start = 524288, end' = 786432, uploaded = False, etag = None\<rparr>,
                \<lparr>index = 3, start = 786432, end' = 1048576, uploaded = False, etag = None\<rparr>],
      error = None, controller = False, completing = False, fileUrl = None\<rparr>"

text \<open>
  A browser that holds the one record \<open>u\<close>, paused, and no pipeline; the empty browser.
\<close>

definition pausedBrowser :: "UploadFileMeta \<Rightarrow> Browser" where
  "pausedBrowser u =
     \<lparr>manager = \<lparr>uploads = [u\<lparr>status := Paused, controller := False\<rparr>], queue = [],
                  uuids = 1\<rparr>,
      uploadsRef = [u\<lparr>status := Paused, controller := False\<rparr>], pipelines = [],
      happened = []\<rparr>"

definition emptyBrowser :: Browser where
  "emptyBrowser =
     \<lparr>manager = \<lparr>uploads = [], queue = [], uuids = 0\<rparr>, uploadsRef = [], pipelines = [],
      happened = []\<rparr>"

text \<open>
  Tasks in which a request or timer of the \<open>n\<close>-th pipeline settles: the backend
  answers \<^verbatim>\<open>apiInitiateUpload\<close> with an upload id and a chunk size, the part URL
  arrives, the transfer ends with an ETag or fails with an HTTP status, the delay is
  over. No jitter.
\<close>

definition sessionStarts :: "nat \<Rightarrow> int \<Rightarrow> Task" where
  "sessionStarts n cs =
     Settle n (Initiated (Inr \<lparr>init_uploadId = ''u1'', init_chunkSize = Some cs,
       init_alreadyUploadedParts = None, init_partsETags = None,
       init_allowed = None, init_reason = None, init_remainingBytes = None\<rparr>)) 0"

definition partUrlArrives :: "nat \<Rightarrow> Task" where
  "partUrlArrives n = Settle n (GotPartUrl None) 0"

definition putSucceeds :: "nat \<Rightarrow> string \<Rightarrow> Task" where
  "putSucceeds n e = Settle n (PutSettled False False (Inr (Some e))) 0"

definition putFails :: "nat \<Rightarrow> int \<Rightarrow> string \<Rightarrow> Task" where
  "putFails n s m = Settle n (PutSettled False False (Inl (AxiosError (Some s) m))) 0"

definition sleepEnds :: "nat \<Rightarrow> Task" where
  "sleepEnds n = Settle n Woke 0"

text \<open>
  The index of the chunk whose transfer a pipeline is suspended in, if it is.
\<close>

fun transferring :: "Pipeline \<Rightarrow> int option" where
  "transferring (AwaitPut i meta p chunkMeta attempt uploadedBytesBefore) =
     Some (index chunkMeta)"
| "transferring k = None"

text \<open>
  Three runs of the browser, each from a paused record that the user resumes. In the
  first the user pauses and resumes the file once more while its first transfer is
  under way; that transfer succeeds before the part URL of the second pipeline
  arrives. In the second the third of four chunks fails three times with status 500
  and then succeeds. In the third the only chunk fails five times.
\<close>

definition pausedDuringTransfer :: "Task list" where
  "pausedDuringTransfer =
     [Press (Resume 0), partUrlArrives 0,
      Press (Pause 0), Press (Resume 0),
      putSucceeds 0 ''e0'', partUrlArrives 1, partUrlArrives 0,
      putSucceeds 1 ''e0'', partUrlArrives 1]"

definition thirdChunkRetried :: "Task list" where
  "thirdChunkRetried =
     [Press (Resume 0),
      partUrlArrives 0, putSucceeds 0 ''etag-1'',
      partUrlArrives 0, putSucceeds 0 ''etag-2'',
      partUrlArrives 0, putFails 0 500 ''Request failed with status code 500'', sleepEnds 0,
      partUrlArrives 0, putFails 0 500 ''Request failed with status code 500'', sleepEnds 0,
      partUrlArrives 0, putFails 0 500 ''Request failed with status code 500'', sleepEnds 0,
      partUrlArrives 0, putSucceeds 0 ''etag-3'',
      partUrlArrives 0, putSucceeds 0 ''etag-4'']"

definition onlyChunkExhausted :: "Task list" where
  "onlyChunkExhausted =
     [Press (Resume 0),
      partUrlArrives 0, putFails 0 500 ''failure 0'', sleepEnds 0,
      partUrlArrives 0, putFails 0 500 ''failure 1'', sleepEnds 0,
      partUrlArrives 0, putFails 0 500 ''failure 2'', sleepEnds 0,
      partUrlArrives 0, putFails 0 500 ''failure 3'', sleepEnds 0,
      partUrlArrives 0, putFails 0 500 ''failure 4'']"
section \<open>Properties of the chunk planner\<close>

subsection \<open>The loop in closed form\<close>

lemma chunk_count_le: 
  assumes "0 < cs" "0 \<le> i" "n \<le> i * cs" shows "chunk_count n cs \<le> nat i"
proof -
  from assms(3) have "real_of_int n \<le> real_of_int i * real_of_int cs"
    by (metis of_int_mult of_int_le_iff)
  with assms(1) have "\<lceil>real_of_int n / real_of_int cs\<rceil> \<le> i"
    by (simp add: ceiling_le_iff pos_divide_le_eq)
  then show ?thesis unfolding chunk_count_def by (rule nat_mono)
qed

lemma chunk_count_gt: 
 assumes "0 < cs" "0 \<le> i" "i * cs < n" shows "nat i < chunk_count n cs"
proof -
  from assms(3) have "real_of_int i * real_of_int cs < real_of_int n"
    by (metis of_int_mult of_int_less_iff)
  with assms(1) have "i < \<lceil>real_of_int n / real_of_int cs\<rceil>"
    by (simp add: less_ceiling_iff pos_less_divide_eq)
  then show ?thesis using assms(2) unfolding chunk_count_def by linarith
qed

lemma below_chunk_count:
  assumes "0 < cs" "k < chunk_count n cs" shows "int k * cs < n"
proof (rule ccontr)
  assume "\<not> int k * cs < n"
  then have "n \<le> int k * cs" by simp
  from chunk_count_le[OF assms(1) _ this] assms(2) show False by simp
qed

lemma chunk_count_covers:
  assumes "0 < cs" shows "n \<le> int (chunk_count n cs) * cs"
proof (rule ccontr)
  assume "\<not> n \<le> int (chunk_count n cs) * cs"
  then have "int (chunk_count n cs) * cs < n" by simp
  from chunk_count_gt[OF assms _ this] show False by simp
qed

lemma buildChunks_loop_closed:
  "0 < cs \<Longrightarrow> 0 \<le> i \<Longrightarrow> s = i * cs \<Longrightarrow>
   buildChunks_loop n cs parts etags i s acc =
     Some (acc @ map (planned_chunk n cs parts etags) [nat i ..< chunk_count n cs])"
proof (induction "nat (n - s)" arbitrary: i s acc rule: less_induct)
  case less
  show ?case
  proof (cases "s < n")
    case False
    with less.prems have "chunk_count n cs \<le> nat i"
      by (intro chunk_count_le) auto
    with False show ?thesis
      by (subst buildChunks_loop.simps) simp
  next
    case True
    with less.prems have lt: "nat i < chunk_count n cs"
      by (intro chunk_count_gt) auto
    have step: "buildChunks_loop n cs parts etags (i + 1) (s + cs)
            (acc @ [planned_chunk n cs parts etags (nat i)]) =
          Some ((acc @ [planned_chunk n cs parts etags (nat i)]) @
            map (planned_chunk n cs parts etags) [nat (i + 1) ..< chunk_count n cs])"
      using less.prems True
      by (intro less.hyps) (auto simp: algebra_simps)
    have nat_suc: "nat (i + 1) = Suc (nat i)"
      using less.prems by simp
    have upt: "[nat i ..< chunk_count n cs] = nat i # [Suc (nat i) ..< chunk_count n cs]"
      using lt by (simp add: upt_conv_Cons)
    have rec: "\<lparr>index = i, start = s, end' = min (s + cs) n, uploaded = (i + 1 \<in> set parts),
                  etag = (if i + 1 \<in> set parts then etags (String_of (i + 1)) else None)\<rparr>
         = planned_chunk n cs parts etags (nat i)"
      using less.prems by (simp add: planned_chunk_def)
    have "buildChunks_loop n cs parts etags i s acc =
        buildChunks_loop n cs parts etags (i + 1) (s + cs)
            (acc @ [planned_chunk n cs parts etags (nat i)])"
      by (subst buildChunks_loop.simps) (simp only: True if_True Let_def rec)
    also note step
    finally show ?thesis
      by (simp add: nat_suc upt)
  qed
qed

lemma buildChunks_closed:
  "0 < cs \<Longrightarrow> buildChunks n cs parts etags =
     Some (map (planned_chunk n cs parts etags) [0 ..< chunk_count n cs])"
  using buildChunks_loop_closed[of cs 0 0 n parts etags "[]"] by (simp add: buildChunks_def)

lemma buildChunks_loop_diverges:
  assumes "buildChunks_loop n cs parts etags i s acc = Some y"
  shows "\<not> (cs \<le> 0 \<and> s < n)"
proof (rule buildChunks_loop.raw_induct
    [where P = "\<lambda>n cs parts etags i s acc y. \<not> (cs \<le> 0 \<and> s < n)", OF _ assms])
  fix f n cs parts etags i s acc y
  assume IH: "\<And>n cs parts etags i s acc y.
      f n cs parts etags i s acc = Some y \<Longrightarrow> \<not> (cs \<le> 0 \<and> s < n)"
    and body: "(if s < n then
        (let e = min (s + cs) n;
             partNumber = i + 1;
             uploadedAlready = (partNumber \<in> set parts)
         in f n cs parts etags (i + 1) (s + cs)
              (acc @
                [\<lparr>index = i, start = s, end' = e, uploaded = uploadedAlready,
                  etag = (if uploadedAlready then etags (String_of partNumber)
                          else None)\<rparr>]))
      else Some acc) = Some y"
  show "\<not> (cs \<le> 0 \<and> s < n)"
  proof
    assume a: "cs \<le> 0 \<and> s < n"
    with body have "\<exists>c. f n cs parts etags (i + 1) (s + cs) (acc @ [c]) = Some y"
      by (simp only: if_True Let_def) blast
    then obtain c where "f n cs parts etags (i + 1) (s + cs) (acc @ [c]) = Some y" ..
    from IH[OF this] a show False by simp
  qed
qed

lemma buildChunks_diverges:
  "cs \<le> 0 \<Longrightarrow> 0 < n \<Longrightarrow> buildChunks n cs parts etags = None"
  using buildChunks_loop_diverges[of n cs parts etags 0 0 "[]"]
  by (cases "buildChunks n cs parts etags") (auto simp: buildChunks_def)

lemma buildChunks_empty:
  "n \<le> 0 \<Longrightarrow> buildChunks n cs parts etags = Some []"
  unfolding buildChunks_def by (subst buildChunks_loop.simps) simp

subsection \<open>Partition of the byte range\<close>

text \<open>
  C1. For a file size \<open>n \<ge> 0\<close> and a chunk size \<open>cs > 0\<close>, \<^verbatim>\<open>buildChunks\<close>
  returns a chunk list that partitions the byte range \<open>[0, n)\<close> exactly once: chunk 0
  starts at 0, the end of each chunk is the start of the next, the last chunk ends
  at \<open>n\<close>, every chunk is non-empty and at most \<open>cs\<close> long and carries its
  position as index, every byte offset lies in exactly one chunk, and the number of
  chunks is \<open>\<lceil>n / cs\<rceil>\<close>.
\<close>

theorem buildChunks_partition:
  assumes "0 \<le> n" and "0 < cs"
  shows "\<exists>plan. buildChunks n cs parts etags = Some plan
     \<and> int (length plan) = \<lceil>real_of_int n / real_of_int cs\<rceil>
     \<and> (plan \<noteq> [] \<longrightarrow> start (plan ! 0) = 0 \<and> end' (last plan) = n)
     \<and> (\<forall>k. Suc k < length plan \<longrightarrow> end' (plan ! k) = start (plan ! Suc k))
     \<and> (\<forall>k < length plan. index (plan ! k) = int k
            \<and> start (plan ! k) < end' (plan ! k)
            \<and> end' (plan ! k) - start (plan ! k) \<le> cs)
     \<and> (\<forall>b. 0 \<le> b \<and> b < n \<longrightarrow>
            (\<exists>!k. k < length plan \<and> start (plan ! k) \<le> b \<and> b < end' (plan ! k)))"
proof -
  define N where "N = chunk_count n cs"
  define P where "P = planned_chunk n cs parts etags"
  define plan where "plan = map P [0 ..< N]"
  have len: "length plan = N" by (simp add: plan_def)
  have nth: "plan ! k = P k" if "k < N" for k
    using that by (simp add: plan_def)
  have below: "int k * cs < n" if "k < N" for k
    using that below_chunk_count[OF assms(2)] by (simp add: N_def)
  have covers: "n \<le> int N * cs"
    using chunk_count_covers[OF assms(2)] by (simp add: N_def)
  have st: "start (P k) = int k * cs" for k by (simp add: P_def planned_chunk_def)
  have en: "end' (P k) = min (int k * cs + cs) n" for k by (simp add: P_def planned_chunk_def)
  have ix: "index (P k) = int k" for k by (simp add: P_def planned_chunk_def)
  have 1: "buildChunks n cs parts etags = Some plan"
    using buildChunks_closed[OF assms(2)] by (simp add: plan_def P_def N_def)
  have "0 \<le> real_of_int n / real_of_int cs" using assms by simp
  then have "0 \<le> \<lceil>real_of_int n / real_of_int cs\<rceil>" by (simp add: zero_le_ceiling)
  then have 2: "int (length plan) = \<lceil>real_of_int n / real_of_int cs\<rceil>"
    by (simp add: len N_def chunk_count_def)
  have 3: "start (plan ! 0) = 0 \<and> end' (last plan) = n" if "plan \<noteq> []"
  proof -
    from that have pos: "0 < N" using len by auto
    then have "start (plan ! 0) = 0" by (simp add: nth st)
    moreover have "last plan = P (N - 1)"
      using pos len nth[of "N - 1"] that by (simp add: last_conv_nth)
    moreover have "int (N - 1) * cs + cs = int N * cs"
      using pos by (simp add: algebra_simps of_nat_diff)
    ultimately show ?thesis using covers by (simp add: en)
  qed
  have 4: "end' (plan ! k) = start (plan ! Suc k)" if "Suc k < length plan" for k
  proof -
    from that have "Suc k < N" using len by simp
    then have "int (Suc k) * cs < n" by (rule below)
    then have "int k * cs + cs < n" by (simp add: algebra_simps)
    then show ?thesis using that len by (simp add: nth st en algebra_simps)
  qed
  have 5: "index (plan ! k) = int k \<and> start (plan ! k) < end' (plan ! k)
            \<and> end' (plan ! k) - start (plan ! k) \<le> cs" if "k < length plan" for k
    using that len below[of k] assms(2) by (simp add: nth st en ix)
  have 6: "\<exists>!k. k < length plan \<and> start (plan ! k) \<le> b \<and> b < end' (plan ! k)"
    if b: "0 \<le> b \<and> b < n" for b
  proof (rule ex1I[of _ "nat (b div cs)"])
    define q where "q = nat (b div cs)"
    have q0: "0 \<le> b div cs" using b assms(2) by (simp add: pos_imp_zdiv_nonneg_iff)
    then have iq: "int q = b div cs" by (simp add: q_def)
    have m: "0 \<le> b mod cs \<and> b mod cs < cs" using assms(2) by simp
    have d: "b = int q * cs + b mod cs" by (simp add: iq)
    have lo: "int q * cs \<le> b" using m d by linarith
    have hi: "b < int q * cs + cs" using m d by linarith
    have "int q * cs < n" using lo b by simp
    then have "q < N" using chunk_count_gt[OF assms(2), of "int q" n] by (simp add: N_def)
    then show "nat (b div cs) < length plan \<and> start (plan ! nat (b div cs)) \<le> b
          \<and> b < end' (plan ! nat (b div cs))"
      using lo hi b by (simp add: len nth st en q_def[symmetric])
  next
    fix k assume k: "k < length plan \<and> start (plan ! k) \<le> b \<and> b < end' (plan ! k)"
    then have kN: "k < N" by (simp add: len)
    from k have "int k * cs \<le> b" "b < int k * cs + cs"
      by (simp_all add: nth[OF kN] st en)
    then have "b div cs = int k"
      using assms(2) by (intro int_div_pos_eq[where r = "b - int k * cs"]) (auto simp: algebra_simps)
    then show "k = nat (b div cs)" by simp
  qed
  from 1 2 3 4 5 6 show ?thesis by blast
qed


text \<open>The partition theorem at a 25-byte file planned with chunk size 10.\<close>

theorem buildChunks_partition_witness:
  "(0::int) \<le> 25 \<and> (0::int) < 10 \<and>
   (\<exists>plan. buildChunks 25 10 [] Map.empty = Some plan
     \<and> int (length plan) = \<lceil>real_of_int 25 / real_of_int 10\<rceil>
     \<and> (plan \<noteq> [] \<longrightarrow> start (plan ! 0) = 0 \<and> end' (last plan) = 25)
     \<and> (\<forall>k. Suc k < length plan \<longrightarrow> end' (plan ! k) = start (plan ! Suc k))
     \<and> (\<forall>k < length plan. index (plan ! k) = int k
            \<and> start (plan ! k) < end' (plan ! k)
            \<and> end' (plan ! k) - start (plan ! k) \<le> 10)
     \<and> (\<forall>b. 0 \<le> b \<and> b < 25 \<longrightarrow>
            (\<exists>!k. k < length plan \<and> start (plan ! k) \<le> b \<and> b < end' (plan ! k))))"
proof -
  have h: "(0::int) \<le> 25" "(0::int) < 10" by simp_all
  from buildChunks_partition[OF h, of "[]" Map.empty] h show ?thesis by blast
qed

subsection \<open>Resuming with already-uploaded parts\<close>

lemma map_planned_chunk:
  "map (\<lambda>c. c\<lparr>uploaded := (index c + 1 \<in> set parts),
              etag := (if index c + 1 \<in> set parts then etags (String_of (index c + 1))
                       else None)\<rparr>)
     (map (planned_chunk n cs [] Map.empty) ks) = map (planned_chunk n cs parts etags) ks"
  by (simp add: planned_chunk_def)

text \<open>
  C2. For every file size, chunk size, list of already-uploaded part numbers and table
  of etags, the chunk list of \<^verbatim>\<open>buildChunks\<close> is the fresh plan
  \<^verbatim>\<open>buildChunks(size, chunkSize, [], {})\<close> with the same indices, starts and ends,
  in which exactly the chunks whose 1-based part number is in the already-uploaded
  list are marked \<open>uploaded\<close> and carry the etag supplied for that part number (and
  erasing the marks gives the fresh plan back); where one call does not return, neither
  does the other. In particular \<^verbatim>\<open>buildChunks(25, 10, [2], {"2": "e1"})\<close> is
  \<^verbatim>\<open>[{0,10,false},{10,20,true,"e1"},{20,25,false}]\<close>.
\<close>

theorem buildChunks_resume:
  "buildChunks n cs parts etags =
     map_option
       (map (\<lambda>c. c\<lparr>uploaded := (index c + 1 \<in> set parts),
                    etag := (if index c + 1 \<in> set parts
                             then etags (String_of (index c + 1)) else None)\<rparr>))
       (buildChunks n cs [] Map.empty)
   \<and> buildChunks n cs [] Map.empty =
       map_option (map (\<lambda>c. c\<lparr>uploaded := False, etag := None\<rparr>)) (buildChunks n cs parts etags)
   \<and> buildChunks 25 10 [2] [''2'' \<mapsto> ''e1''] =
       Some [\<lparr>index = 0, start = 0, end' = 10, uploaded = False, etag = None\<rparr>,
             \<lparr>index = 1, start = 10, end' = 20, uploaded = True, etag = Some ''e1''\<rparr>,
             \<lparr>index = 2, start = 20, end' = 25, uploaded = False, etag = None\<rparr>]"
proof (intro conjI)
  show "buildChunks n cs parts etags =
     map_option
       (map (\<lambda>c. c\<lparr>uploaded := (index c + 1 \<in> set parts),
                    etag := (if index c + 1 \<in> set parts
                             then etags (String_of (index c + 1)) else None)\<rparr>))
       (buildChunks n cs [] Map.empty)"
  proof (cases "0 < cs")
    case True
    then show ?thesis
      by (simp only: buildChunks_closed option.map map_planned_chunk)
  next
    case False
    show ?thesis
    proof (cases "0 < n")
      case True
      with False show ?thesis by (simp add: buildChunks_diverges)
    next
      case False
      then show ?thesis by (simp add: buildChunks_empty)
    qed
  qed
  show "buildChunks n cs [] Map.empty =
       map_option (map (\<lambda>c. c\<lparr>uploaded := False, etag := None\<rparr>)) (buildChunks n cs parts etags)"
  proof (cases "0 < cs")
    case True
    then show ?thesis
      by (simp add: buildChunks_closed planned_chunk_def)
  next
    case False
    show ?thesis
    proof (cases "0 < n")
      case True
      with False show ?thesis by (simp add: buildChunks_diverges)
    next
      case False
      then show ?thesis by (simp add: buildChunks_empty)
    qed
  qed
  show "buildChunks 25 10 [2] [''2'' \<mapsto> ''e1''] =
       Some [\<lparr>index = 0, start = 0, end' = 10, uploaded = False, etag = None\<rparr>,
             \<lparr>index = 1, start = 10, end' = 20, uploaded = True, etag = Some ''e1''\<rparr>,
             \<lparr>index = 2, start = 20, end' = 25, uploaded = False, etag = None\<rparr>]"
    by (simp add: buildChunks_def buildChunks_loop.simps String_of_def digit_char_def)
qed

subsection \<open>Etags of pre-marked chunks\<close>

text \<open>
  C9. A chunk of a planned list carries an etag if and only if it is marked uploaded.
  The planner takes the etag of a pre-marked chunk from the table
  \<^verbatim>\<open>partsETags\<close> without checking that the table has an entry: with part 2
  reported as uploaded and no etag for it, chunk 1 of the plan is marked uploaded and
  has no etag.
\<close>

theorem buildChunks_uploaded_without_etag:
  "buildChunks 25 10 [2] Map.empty =
     Some [\<lparr>index = 0, start = 0, end' = 10, uploaded = False, etag = None\<rparr>,
           \<lparr>index = 1, start = 10, end' = 20, uploaded = True, etag = None\<rparr>,
           \<lparr>index = 2, start = 20, end' = 25, uploaded = False, etag = None\<rparr>]"
  by (simp add: buildChunks_def buildChunks_loop.simps)

subsection \<open>Termination\<close>

text \<open>
  C10. \<^verbatim>\<open>buildChunks\<close> returns a chunk list for every file size \<open>n \<ge> 0\<close>
  precisely when the chunk size is positive; with a chunk size \<open>cs \<le> 0\<close> and a
  file size \<open>n > 0\<close> the call does not return: a round of the loop that starts
  inside the range does not shorten what remains of it, and the loop never ends.
\<close>

theorem buildChunks_terminates_iff:
  "((\<forall>n\<ge>0. \<exists>plan. buildChunks n cs parts etags = Some plan) \<longleftrightarrow> 0 < cs)
   \<and> (\<forall>n>0. cs \<le> 0 \<longrightarrow> buildChunks n cs parts etags = None)
   \<and> (\<forall>n i s acc. cs \<le> 0 \<and> s < n \<longrightarrow>
          n - s \<le> n - (s + cs) \<and> buildChunks_loop n cs parts etags i s acc = None)"
proof (intro conjI iffI allI impI)
  assume "0 < cs"
  then show "\<exists>plan. buildChunks n cs parts etags = Some plan" for n
    by (simp add: buildChunks_closed)
next
  assume a: "\<forall>n\<ge>0. \<exists>plan. buildChunks n cs parts etags = Some plan"
  show "0 < cs"
  proof (rule ccontr)
    assume "\<not> 0 < cs"
    then have "buildChunks 1 cs parts etags = None"
      by (intro buildChunks_diverges) simp_all
    moreover from a have "(0::int) \<le> 1 \<longrightarrow> (\<exists>plan. buildChunks 1 cs parts etags = Some plan)"
      by (rule spec)
    ultimately show False by simp
  qed
next
  fix n :: int
  assume "0 < n" "cs \<le> 0"
  then show "buildChunks n cs parts etags = None" by (simp add: buildChunks_diverges)
next
  fix n i s :: int and acc
  assume a: "cs \<le> 0 \<and> s < n"
  then show "n - s \<le> n - (s + cs)" by simp
  show "buildChunks_loop n cs parts etags i s acc = None"
  proof (cases "buildChunks_loop n cs parts etags i s acc")
    case None
    then show ?thesis .
  next
    case (Some y)
    from buildChunks_loop_diverges[OF this] a show ?thesis by simp
  qed
qed

text \<open>
  The termination theorem at chunk sizes 10, 0 and -10: the 25-byte plan exists, and a
  1-byte file is never planned with chunk size 0 or -10.
\<close>

theorem buildChunks_terminates_iff_witness:
  "(\<exists>plan. buildChunks 25 10 [] Map.empty = Some plan)
   \<and> \<not> (\<forall>n\<ge>0. \<exists>plan. buildChunks n 0 [] Map.empty = Some plan)
   \<and> buildChunks 1 0 [] Map.empty = None \<and> buildChunks 1 (- 10) [] Map.empty = None"
  using buildChunks_terminates_iff[of 10 "[]" Map.empty]
    buildChunks_terminates_iff[of 0 "[]" Map.empty]
    buildChunks_terminates_iff[of "- 10" "[]" Map.empty]
  by simp
section \<open>Enqueueing files\<close>

subsection \<open>Auxiliary facts\<close>

lemma findIndex_found:
  "0 \<le> findIndex P xs \<Longrightarrow> nat (findIndex P xs) < length xs \<and> P (xs ! nat (findIndex P xs))"
proof (induction xs)
  case Nil
  then show ?case by simp
next
  case (Cons x xs)
  show ?case
  proof (cases "P x")
    case True
    then show ?thesis by simp
  next
    case False
    with Cons.prems have r: "0 \<le> findIndex P xs"
      by (simp add: Let_def split: if_splits)
    with False have "findIndex P (x # xs) = findIndex P xs + 1"
      by (simp add: Let_def)
    moreover from r have "nat (findIndex P xs + 1) = Suc (nat (findIndex P xs))" by simp
    ultimately show ?thesis using Cons.IH[OF r] by simp
  qed
qed

lemma findIndex_none: "\<forall>x\<in>set xs. \<not> P x \<Longrightarrow> findIndex P xs = - 1"
  by (induction xs) (simp_all add: Let_def)

lemma set_update_other:
  assumes "u \<in> set xs" and "u \<noteq> xs ! k"
  shows "u \<in> set (xs[k := y])"
proof -
  from assms(1) obtain j where j: "j < length xs" "xs ! j = u"
    by (auto simp: in_set_conv_nth)
  with assms(2) have "j \<noteq> k" by auto
  with j have "xs[k := y] ! j = u" by simp
  with j(1) show ?thesis by (metis length_list_update nth_mem)
qed

lemma uploads_push [simp]: "uploads (push m sev st) = uploads st"
  by (simp add: push_def)

lemma queue_push [simp]:
  "queue (push m sev st) = queue st @ [\<lparr>snack_id = uuids st, message = m, severity = sev\<rparr>]"
  by (simp add: push_def)

lemma uuids_push [simp]: "uuids (push m sev st) = Suc (uuids st)"
  by (simp add: push_def)

lemma addFilesToQueue_limit:
  "MAX_FILES \<le> length (uploads st) \<Longrightarrow> fs \<noteq> [] \<Longrightarrow>
   addFilesToQueue fs st = push ''Upload limit reached (100 files)'' Warning st"
  by (cases fs) simp_all

lemma addFilesToQueue_keeps_accepted:
  assumes "\<exists>u\<in>set (uploads st). file u = Some f \<and> status u = Queued"
  shows "\<exists>u\<in>set (uploads (addFilesToQueue fs st)). file u = Some f \<and> status u = Queued"
  using assms
proof (induction fs arbitrary: st)
  case Nil
  then show ?case by simp
next
  case (Cons g fs)
  from Cons.prems obtain u where u: "u \<in> set (uploads st)" "file u = Some f" "status u = Queued"
    by blast
  show ?case
  proof (cases "MAX_FILES \<le> length (uploads st)")
    case True
    with u show ?thesis by auto
  next
    case notfull: False
    show ?thesis
    proof (cases "MAX_FILE_SIZE_BYTES < size' g")
      case True
      have "\<exists>u\<in>set (uploads (push (no_entry_sign @ '' '' @ name g @ '' exceeds 5GB limit'')
                 Failure st)). file u = Some f \<and> status u = Queued"
        using u by auto
      from Cons.IH[OF this] notfull True show ?thesis by simp
    next
      case oksize: False
      define idx where "idx = findIndex (matchesPlaceholder g) (uploads st)"
      show ?thesis
      proof (cases "0 \<le> idx")
        case True
        then have "matchesPlaceholder g (uploads st ! nat idx)"
          using findIndex_found[of "matchesPlaceholder g" "uploads st"] by (simp add: idx_def)
        then have "status (uploads st ! nat idx) = AwaitingFile"
          by (simp add: matchesPlaceholder_def)
        with u have "u \<noteq> uploads st ! nat idx" by auto
        with u(1) have "u \<in> set ((uploads st)[nat idx := y])" for y
          by (rule set_update_other)
        then have "\<exists>u\<in>set (uploads (push (''Resuming '' @ name g @ ellipsis) Info
                 (st\<lparr>uploads := (uploads st)
                     [nat idx := (uploads st ! nat idx)\<lparr>file := Some g, status := Queued, error := None,
                                          fileLastModified := Some (lastModified g)\<rparr>]\<rparr>))).
               file u = Some f \<and> status u = Queued"
          using u by auto
        from Cons.IH[OF this] notfull oksize True show ?thesis
          by (simp add: idx_def Let_def)
      next
        case False
        have "\<exists>u\<in>set (uploads (st\<lparr>uploads := uploads st @
                   [\<lparr>id' = uuids st, file = Some g, fileName = name g, fileSize = size' g,
                     fileLastModified = Some (lastModified g), status = Queued,
                     progress = 0, uploadedBytes = 0, uploadId = None,
                     chunkSize = DEFAULT_CHUNK_SIZE, chunks = [], error = None,
                     controller = False, completing = False, fileUrl = None\<rparr>],
                 uuids := Suc (uuids st)\<rparr>)). file u = Some f \<and> status u = Queued"
          using u by auto
        from Cons.IH[OF this] notfull oksize False show ?thesis
          by (simp add: idx_def Let_def)
      qed
    qed
  qed
qed

lemma addFilesToQueue_append:
  "length (uploads st) + length fs \<le> MAX_FILES \<Longrightarrow>
   addFilesToQueue (fs @ gs) st = addFilesToQueue gs (addFilesToQueue fs st)"
proof (induction fs arbitrary: st)
  case Nil
  then show ?case by simp
next
  case (Cons g fs)
  from Cons.prems(1) have notfull: "\<not> MAX_FILES \<le> length (uploads st)" by simp
  from Cons.prems show ?case
    using notfull by (simp add: Let_def Cons.IH)
qed

lemma addFilesToQueue_fill:
  assumes "length (uploads st) + length fs \<le> MAX_FILES"
    and "\<forall>u\<in>set (uploads st). status u \<noteq> AwaitingFile"
    and "\<forall>f\<in>set fs. size' f \<le> MAX_FILE_SIZE_BYTES"
  shows "length (uploads (addFilesToQueue fs st)) = length (uploads st) + length fs
       \<and> queue (addFilesToQueue fs st) = queue st"
  using assms
proof (induction fs arbitrary: st)
  case Nil
  then show ?case by simp
next
  case (Cons g fs)
  from Cons.prems(1) have notfull: "\<not> MAX_FILES \<le> length (uploads st)" by simp
  from Cons.prems(2) have none: "findIndex (matchesPlaceholder g) (uploads st) = - 1"
    by (intro findIndex_none) (simp add: matchesPlaceholder_def)
  define st3 where "st3 = st\<lparr>uploads := uploads st @
                   [\<lparr>id' = uuids st, file = Some g, fileName = name g, fileSize = size' g,
                     fileLastModified = Some (lastModified g), status = Queued,
                     progress = 0, uploadedBytes = 0, uploadId = None,
                     chunkSize = DEFAULT_CHUNK_SIZE, chunks = [], error = None,
                     controller = False, completing = False, fileUrl = None\<rparr>],
                 uuids := Suc (uuids st)\<rparr>"
  have step: "addFilesToQueue (g # fs) st = addFilesToQueue fs st3"
    using notfull none Cons.prems(3) by (simp add: Let_def st3_def)
  have "length (uploads (addFilesToQueue fs st3)) = length (uploads st3) + length fs
       \<and> queue (addFilesToQueue fs st3) = queue st3"
    using Cons.prems by (intro Cons.IH) (auto simp: st3_def)
  then show ?case unfolding step by (simp add: st3_def)
qed

lemma addFilesToQueue_one:
  assumes "length (uploads st) < MAX_FILES"
  shows "addFilesToQueue (f # fs) st = addFilesToQueue fs (addFilesToQueue [f] st)"
  using assms by (simp add: Let_def)

lemma addFilesToQueue_one_oversized:
  assumes "length (uploads st) < MAX_FILES" and "MAX_FILE_SIZE_BYTES < size' f"
  shows "addFilesToQueue [f] st =
     push (no_entry_sign @ '' '' @ name f @ '' exceeds 5GB limit'') Failure st"
  using assms by simp

lemma addFilesToQueue_one_accepted:
  assumes "length (uploads st) < MAX_FILES" and "size' f \<le> MAX_FILE_SIZE_BYTES"
  shows "(\<exists>u\<in>set (uploads (addFilesToQueue [f] st)). file u = Some f \<and> status u = Queued)
       \<and> (\<exists>new. queue (addFilesToQueue [f] st) = queue st @ new
              \<and> (\<forall>s\<in>set new. severity s = Info))"
proof -
  define idx where "idx = findIndex (matchesPlaceholder f) (uploads st)"
  define st2 where "st2 = push (''Resuming '' @ name f @ ellipsis) Info
                 (st\<lparr>uploads := (uploads st)
                     [nat idx := (uploads st ! nat idx)\<lparr>file := Some f, status := Queued, error := None,
                                          fileLastModified := Some (lastModified f)\<rparr>]\<rparr>)"
  define st3 where "st3 = st\<lparr>uploads := uploads st @
                   [\<lparr>id' = uuids st, file = Some f, fileName = name f, fileSize = size' f,
                     fileLastModified = Some (lastModified f), status = Queued,
                     progress = 0, uploadedBytes = 0, uploadId = None,
                     chunkSize = DEFAULT_CHUNK_SIZE, chunks = [], error = None,
                     controller = False, completing = False, fileUrl = None\<rparr>],
                 uuids := Suc (uuids st)\<rparr>"
  have step: "addFilesToQueue [f] st = (if 0 \<le> idx then st2 else st3)"
    using assms by (simp add: Let_def idx_def st2_def st3_def)
  show ?thesis
  proof (cases "0 \<le> idx")
    case True
    then have "nat idx < length (uploads st)"
      using findIndex_found[of "matchesPlaceholder f" "uploads st"] by (simp add: idx_def)
    then have "\<exists>u\<in>set (uploads st2). file u = Some f \<and> status u = Queued"
      by (auto simp: st2_def set_update_memI intro!: bexI[where x = "(uploads st)[nat idx := (uploads st ! nat idx)\<lparr>file := Some f, status := Queued, error := None,
                                          fileLastModified := Some (lastModified f)\<rparr>] ! nat idx"])
    moreover have "queue st2 = queue st @
        [\<lparr>snack_id = uuids st, message = ''Resuming '' @ name f @ ellipsis, severity = Info\<rparr>]"
      by (simp add: st2_def)
    ultimately show ?thesis unfolding step using True by simp
  next
    case False
    have "\<exists>u\<in>set (uploads st3). file u = Some f \<and> status u = Queued"
      by (auto simp: st3_def)
    moreover have "queue st3 = queue st @ []" by (simp add: st3_def)
    ultimately show ?thesis unfolding step using False by simp
  qed
qed

subsection \<open>Rejections at enqueue\<close>

text \<open>
  C8, as stated, fails: "Enqueue surfaces a distinct warning for each rejected file."
  When 102 files of 10 bytes are enqueued on an empty queue, 100 are accepted and two
  are rejected, and the only message is the single warning that the limit is reached.
\<close>

theorem addFilesToQueue_one_warning_for_two_rejections:
  "length (uploads (addFilesToQueue
      (replicate 102 \<lparr>name = ''a.bin'', size' = 10, lastModified = 1\<rparr>)
      \<lparr>uploads = [], queue = [], uuids = 0\<rparr>)) = 100
   \<and> map message (queue (addFilesToQueue
      (replicate 102 \<lparr>name = ''a.bin'', size' = 10, lastModified = 1\<rparr>)
      \<lparr>uploads = [], queue = [], uuids = 0\<rparr>)) = [''Upload limit reached (100 files)'']"
proof -
  define f :: File where "f = \<lparr>name = ''a.bin'', size' = 10, lastModified = 1\<rparr>"
  define st0 :: ManagerState where "st0 = \<lparr>uploads = [], queue = [], uuids = 0\<rparr>"
  define st100 where "st100 = addFilesToQueue (replicate 100 f) st0"
  have fill: "length (uploads st100) = 100 \<and> queue st100 = []"
    using addFilesToQueue_fill[of st0 "replicate 100 f"]
    by (simp add: st100_def st0_def f_def MAX_FILES_def MAX_FILE_SIZE_BYTES_def)
  have "replicate 102 f = replicate 100 f @ [f, f]"
    by (simp add: replicate_add[of 100 2 f, simplified] numeral_2_eq_2)
  then have "addFilesToQueue (replicate 102 f) st0 = addFilesToQueue [f, f] st100"
    using addFilesToQueue_append[of st0 "replicate 100 f" "[f, f]"]
    by (simp add: st100_def st0_def MAX_FILES_def)
  also have "\<dots> = push ''Upload limit reached (100 files)'' Warning st100"
    using fill by (intro addFilesToQueue_limit) (simp_all add: MAX_FILES_def)
  finally show ?thesis using fill by (simp add: f_def st0_def)
qed

text \<open>
  C8, amended. Enqueue examines the files of a call in order, as long as the queue
  holds fewer than 100 records; \<open>n\<close> is the number of files it examines. The call
  passes through the state that enqueueing the first \<open>j\<close> files alone gives, for every
  \<open>j\<close> up to \<open>n\<close>: it goes on from that state with the remaining files.
  An examined file larger than 5 GiB is rejected: the state stays as it is but for one
  error message of its own, which names the file, and the files after it are still
  examined. An examined file of at most 5 GiB is accepted: it is the file of a queued
  record when the call returns, and at most information messages are raised for it.
  If a file comes up when the queue holds 100 records, the call ends: that file and all
  files after it in the call are rejected together, whatever their size, and the state
  is the one after the examined files but for one single
  "Upload limit reached (100 files)" warning. So the error messages of a call are
  those of its examined files larger than 5 GiB, in their order, and its warnings are
  that single one or none.
\<close>

theorem addFilesToQueue_rejections:
  "\<exists>n\<le>length fs.
     (\<forall>j<n.
        length (uploads (addFilesToQueue (take j fs) st)) < MAX_FILES
      \<and> (MAX_FILE_SIZE_BYTES < size' (fs ! j) \<longrightarrow>
           addFilesToQueue (take (Suc j) fs) st =
             push (no_entry_sign @ '' '' @ name (fs ! j) @ '' exceeds 5GB limit'') Failure
               (addFilesToQueue (take j fs) st))
      \<and> (size' (fs ! j) \<le> MAX_FILE_SIZE_BYTES \<longrightarrow>
           (\<exists>u\<in>set (uploads (addFilesToQueue fs st)).
               file u = Some (fs ! j) \<and> status u = Queued)
         \<and> (\<exists>new. queue (addFilesToQueue (take (Suc j) fs) st) =
                     queue (addFilesToQueue (take j fs) st) @ new
                \<and> (\<forall>s\<in>set new. severity s = Info))))
   \<and> (\<forall>j\<le>n. addFilesToQueue fs st =
                addFilesToQueue (drop j fs) (addFilesToQueue (take j fs) st))
   \<and> (n < length fs \<longrightarrow>
        MAX_FILES \<le> length (uploads (addFilesToQueue (take n fs) st))
      \<and> addFilesToQueue fs st =
          push ''Upload limit reached (100 files)'' Warning (addFilesToQueue (take n fs) st))
   \<and> (\<exists>new. queue (addFilesToQueue fs st) = queue st @ new
        \<and> map message (filter (\<lambda>s. severity s = Failure) new) =
            map (\<lambda>f. no_entry_sign @ '' '' @ name f @ '' exceeds 5GB limit'')
              (filter (\<lambda>f. MAX_FILE_SIZE_BYTES < size' f) (take n fs))
        \<and> map message (filter (\<lambda>s. severity s = Warning) new) =
            (if n < length fs then [''Upload limit reached (100 files)''] else []))"
proof (induction fs arbitrary: st)
  case Nil
  show ?case by simp
next
  case (Cons f fs)
  show ?case
  proof (cases "MAX_FILES \<le> length (uploads st)")
    case True
    have "queue (addFilesToQueue (f # fs) st) = queue st @
        [\<lparr>snack_id = uuids st, message = ''Upload limit reached (100 files)'',
          severity = Warning\<rparr>]"
      using True by simp
    then show ?thesis using True by (intro exI[where x = 0]) simp
  next
    case False
    then have notfull: "length (uploads st) < MAX_FILES" by simp
    define st1 where "st1 = addFilesToQueue [f] st"
    have one: "addFilesToQueue (f # xs) st = addFilesToQueue xs st1" for xs
      unfolding st1_def using notfull by (rule addFilesToQueue_one)
    from Cons.IH[of st1] obtain n new where n: "n \<le> length fs"
      and ex: "\<And>j. j < n \<Longrightarrow>
        length (uploads (addFilesToQueue (take j fs) st1)) < MAX_FILES
      \<and> (MAX_FILE_SIZE_BYTES < size' (fs ! j) \<longrightarrow>
           addFilesToQueue (take (Suc j) fs) st1 =
             push (no_entry_sign @ '' '' @ name (fs ! j) @ '' exceeds 5GB limit'') Failure
               (addFilesToQueue (take j fs) st1))
      \<and> (size' (fs ! j) \<le> MAX_FILE_SIZE_BYTES \<longrightarrow>
           (\<exists>u\<in>set (uploads (addFilesToQueue fs st1)).
               file u = Some (fs ! j) \<and> status u = Queued)
         \<and> (\<exists>new. queue (addFilesToQueue (take (Suc j) fs) st1) =
                     queue (addFilesToQueue (take j fs) st1) @ new
                \<and> (\<forall>s\<in>set new. severity s = Info)))"
      and thru: "\<And>j. j \<le> n \<Longrightarrow> addFilesToQueue fs st1 =
                addFilesToQueue (drop j fs) (addFilesToQueue (take j fs) st1)"
      and lim: "n < length fs \<Longrightarrow>
        MAX_FILES \<le> length (uploads (addFilesToQueue (take n fs) st1))
      \<and> addFilesToQueue fs st1 =
          push ''Upload limit reached (100 files)'' Warning (addFilesToQueue (take n fs) st1)"
      and new: "queue (addFilesToQueue fs st1) = queue st1 @ new"
        "map message (filter (\<lambda>s. severity s = Failure) new) =
            map (\<lambda>f. no_entry_sign @ '' '' @ name f @ '' exceeds 5GB limit'')
              (filter (\<lambda>f. MAX_FILE_SIZE_BYTES < size' f) (take n fs))"
        "map message (filter (\<lambda>s. severity s = Warning) new) =
            (if n < length fs then [''Upload limit reached (100 files)''] else [])"
      by blast
    have first: "length (uploads (addFilesToQueue (take 0 (f # fs)) st)) < MAX_FILES
      \<and> (MAX_FILE_SIZE_BYTES < size' ((f # fs) ! 0) \<longrightarrow>
           addFilesToQueue (take (Suc 0) (f # fs)) st =
             push (no_entry_sign @ '' '' @ name ((f # fs) ! 0) @ '' exceeds 5GB limit'') Failure
               (addFilesToQueue (take 0 (f # fs)) st))
      \<and> (size' ((f # fs) ! 0) \<le> MAX_FILE_SIZE_BYTES \<longrightarrow>
           (\<exists>u\<in>set (uploads (addFilesToQueue (f # fs) st)).
               file u = Some ((f # fs) ! 0) \<and> status u = Queued)
         \<and> (\<exists>new. queue (addFilesToQueue (take (Suc 0) (f # fs)) st) =
                     queue (addFilesToQueue (take 0 (f # fs)) st) @ new
                \<and> (\<forall>s\<in>set new. severity s = Info)))"
    proof (intro conjI impI)
      show "length (uploads (addFilesToQueue (take 0 (f # fs)) st)) < MAX_FILES"
        using notfull by simp
    next
      assume "MAX_FILE_SIZE_BYTES < size' ((f # fs) ! 0)"
      then show "addFilesToQueue (take (Suc 0) (f # fs)) st =
             push (no_entry_sign @ '' '' @ name ((f # fs) ! 0) @ '' exceeds 5GB limit'') Failure
               (addFilesToQueue (take 0 (f # fs)) st)"
        using addFilesToQueue_one_oversized[OF notfull, of f]
        by (simp del: addFilesToQueue.simps(2))
    next
      assume "size' ((f # fs) ! 0) \<le> MAX_FILE_SIZE_BYTES"
      then have small: "size' f \<le> MAX_FILE_SIZE_BYTES" by simp
      from addFilesToQueue_one_accepted[OF notfull small]
      have a: "\<exists>u\<in>set (uploads st1). file u = Some f \<and> status u = Queued"
        and b: "\<exists>new. queue st1 = queue st @ new \<and> (\<forall>s\<in>set new. severity s = Info)"
        unfolding st1_def by blast+
      from addFilesToQueue_keeps_accepted[OF a, of fs]
      show "\<exists>u\<in>set (uploads (addFilesToQueue (f # fs) st)).
               file u = Some ((f # fs) ! 0) \<and> status u = Queued"
        unfolding one by (simp del: addFilesToQueue.simps(2))
      from b show "\<exists>new. queue (addFilesToQueue (take (Suc 0) (f # fs)) st) =
                     queue (addFilesToQueue (take 0 (f # fs)) st) @ new
                \<and> (\<forall>s\<in>set new. severity s = Info)"
        by (simp add: st1_def del: addFilesToQueue.simps(2))
    qed
    have each: "length (uploads (addFilesToQueue (take j (f # fs)) st)) < MAX_FILES
      \<and> (MAX_FILE_SIZE_BYTES < size' ((f # fs) ! j) \<longrightarrow>
           addFilesToQueue (take (Suc j) (f # fs)) st =
             push (no_entry_sign @ '' '' @ name ((f # fs) ! j) @ '' exceeds 5GB limit'') Failure
               (addFilesToQueue (take j (f # fs)) st))
      \<and> (size' ((f # fs) ! j) \<le> MAX_FILE_SIZE_BYTES \<longrightarrow>
           (\<exists>u\<in>set (uploads (addFilesToQueue (f # fs) st)).
               file u = Some ((f # fs) ! j) \<and> status u = Queued)
         \<and> (\<exists>new. queue (addFilesToQueue (take (Suc j) (f # fs)) st) =
                     queue (addFilesToQueue (take j (f # fs)) st) @ new
                \<and> (\<forall>s\<in>set new. severity s = Info)))"
      if j: "j < Suc n" for j
    proof (cases j)
      case 0
      show ?thesis unfolding 0 by (rule first)
    next
      case (Suc k)
      with j have "k < n" by simp
      from ex[OF this] show ?thesis unfolding Suc
        by (simp add: one del: addFilesToQueue.simps(2))
    qed
    have through: "addFilesToQueue (f # fs) st =
        addFilesToQueue (drop j (f # fs)) (addFilesToQueue (take j (f # fs)) st)"
      if j: "j \<le> Suc n" for j
    proof (cases j)
      case 0
      show ?thesis unfolding 0 by simp
    next
      case (Suc k)
      with j have "k \<le> n" by simp
      from thru[OF this] show ?thesis unfolding Suc
        by (simp add: one del: addFilesToQueue.simps(2))
    qed
    have limit: "MAX_FILES \<le> length (uploads (addFilesToQueue (take (Suc n) (f # fs)) st))
      \<and> addFilesToQueue (f # fs) st =
          push ''Upload limit reached (100 files)'' Warning
            (addFilesToQueue (take (Suc n) (f # fs)) st)"
      if "Suc n < length (f # fs)"
      using lim that by (simp add: one del: addFilesToQueue.simps(2))
    obtain new1 where new1: "queue st1 = queue st @ new1"
      "map message (filter (\<lambda>s. severity s = Failure) new1) =
         map (\<lambda>f. no_entry_sign @ '' '' @ name f @ '' exceeds 5GB limit'')
           (filter (\<lambda>f. MAX_FILE_SIZE_BYTES < size' f) [f])"
      "filter (\<lambda>s. severity s = Warning) new1 = []"
    proof (cases "MAX_FILE_SIZE_BYTES < size' f")
      case True
      from addFilesToQueue_one_oversized[OF notfull True]
      have q: "queue st1 = queue st @ [\<lparr>snack_id = uuids st,
          message = no_entry_sign @ '' '' @ name f @ '' exceeds 5GB limit'',
          severity = Failure\<rparr>]"
        by (simp add: st1_def)
      show ?thesis
      proof (rule that)
        show "queue st1 = queue st @ [\<lparr>snack_id = uuids st,
          message = no_entry_sign @ '' '' @ name f @ '' exceeds 5GB limit'',
          severity = Failure\<rparr>]" by (rule q)
        show "map message (filter (\<lambda>s. severity s = Failure) [\<lparr>snack_id = uuids st,
          message = no_entry_sign @ '' '' @ name f @ '' exceeds 5GB limit'',
          severity = Failure\<rparr>]) =
         map (\<lambda>f. no_entry_sign @ '' '' @ name f @ '' exceeds 5GB limit'')
           (filter (\<lambda>f. MAX_FILE_SIZE_BYTES < size' f) [f])"
          using True by simp
        show "filter (\<lambda>s. severity s = Warning) [\<lparr>snack_id = uuids st,
          message = no_entry_sign @ '' '' @ name f @ '' exceeds 5GB limit'',
          severity = Failure\<rparr>] = []" by simp
      qed
    next
      case False
      then have small: "size' f \<le> MAX_FILE_SIZE_BYTES" by simp
      from addFilesToQueue_one_accepted[OF notfull small]
      obtain new0 where n0: "queue st1 = queue st @ new0" "\<forall>s\<in>set new0. severity s = Info"
        unfolding st1_def by blast
      from n0(2) have "filter (\<lambda>s. severity s = Failure) new0 = []"
        "filter (\<lambda>s. severity s = Warning) new0 = []"
        by (auto simp: filter_empty_conv)
      show ?thesis
      proof (rule that[of new0])
        show "queue st1 = queue st @ new0" by (rule n0(1))
        show "map message (filter (\<lambda>s. severity s = Failure) new0) =
         map (\<lambda>f. no_entry_sign @ '' '' @ name f @ '' exceeds 5GB limit'')
           (filter (\<lambda>f. MAX_FILE_SIZE_BYTES < size' f) [f])"
          using False \<open>filter (\<lambda>s. severity s = Failure) new0 = []\<close> by simp
        show "filter (\<lambda>s. severity s = Warning) new0 = []" by fact
      qed
    qed
    have msgs: "queue (addFilesToQueue (f # fs) st) = queue st @ (new1 @ new)
        \<and> map message (filter (\<lambda>s. severity s = Failure) (new1 @ new)) =
            map (\<lambda>f. no_entry_sign @ '' '' @ name f @ '' exceeds 5GB limit'')
              (filter (\<lambda>f. MAX_FILE_SIZE_BYTES < size' f) (take (Suc n) (f # fs)))
        \<and> map message (filter (\<lambda>s. severity s = Warning) (new1 @ new)) =
            (if Suc n < length (f # fs) then [''Upload limit reached (100 files)''] else [])"
      using new new1 by (simp add: one del: addFilesToQueue.simps(2))
    show ?thesis
    proof (intro exI[where x = "Suc n"] conjI allI impI)
      show "Suc n \<le> length (f # fs)" using n by simp
    qed (use each through limit msgs in blast)+
  qed
qed

text \<open>
  The amended statement at an empty queue. A 6 GiB file followed by a 10-byte file: the
  first leaves the queue empty and raises its own message, the second is accepted.
  A hundred files of 10 bytes followed by a 6 GiB file and one more file: the last two
  are dropped with the single warning, and the 6 GiB file gets no message of its own.
\<close>

theorem addFilesToQueue_rejections_witness:
  "addFilesToQueue [\<lparr>name = ''big.bin'', size' = 6 * 1024 * 1024 * 1024, lastModified = 1\<rparr>]
       \<lparr>uploads = [], queue = [], uuids = 0\<rparr> =
     push (no_entry_sign @ '' big.bin exceeds 5GB limit'') Failure
       \<lparr>uploads = [], queue = [], uuids = 0\<rparr>
   \<and> (\<exists>u\<in>set (uploads (addFilesToQueue
       [\<lparr>name = ''big.bin'', size' = 6 * 1024 * 1024 * 1024, lastModified = 1\<rparr>,
        \<lparr>name = ''a.bin'', size' = 10, lastModified = 1\<rparr>]
       \<lparr>uploads = [], queue = [], uuids = 0\<rparr>)).
         file u = Some \<lparr>name = ''a.bin'', size' = 10, lastModified = 1\<rparr> \<and> status u = Queued)
   \<and> addFilesToQueue
        (replicate 100 \<lparr>name = ''a.bin'', size' = 10, lastModified = 1\<rparr> @
           [\<lparr>name = ''big.bin'', size' = 6 * 1024 * 1024 * 1024, lastModified = 1\<rparr>,
            \<lparr>name = ''c.bin'', size' = 10, lastModified = 1\<rparr>])
        \<lparr>uploads = [], queue = [], uuids = 0\<rparr> =
      push ''Upload limit reached (100 files)'' Warning
        (addFilesToQueue (replicate 100 \<lparr>name = ''a.bin'', size' = 10, lastModified = 1\<rparr>)
           \<lparr>uploads = [], queue = [], uuids = 0\<rparr>)"
proof -
  define st0 :: ManagerState where "st0 = \<lparr>uploads = [], queue = [], uuids = 0\<rparr>"
  define big :: File where
    "big = \<lparr>name = ''big.bin'', size' = 6 * 1024 * 1024 * 1024, lastModified = 1\<rparr>"
  define a :: File where "a = \<lparr>name = ''a.bin'', size' = 10, lastModified = 1\<rparr>"
  define c :: File where "c = \<lparr>name = ''c.bin'', size' = 10, lastModified = 1\<rparr>"
  have sizes: "MAX_FILE_SIZE_BYTES < size' big" "size' a \<le> MAX_FILE_SIZE_BYTES"
    by (simp_all add: big_def a_def MAX_FILE_SIZE_BYTES_def)
  have nm: "name big = ''big.bin''" by (simp add: big_def)
  have u0: "length (uploads (addFilesToQueue [] st0)) = 0"
    "length (uploads (addFilesToQueue [big] st0)) = 0"
    using sizes(1) by (simp_all add: st0_def MAX_FILES_def)
  from addFilesToQueue_rejections[of "[big, a]" st0]
  obtain n where n: "n \<le> length [big, a]"
    and each: "\<forall>j<n.
        length (uploads (addFilesToQueue (take j [big, a]) st0)) < MAX_FILES
      \<and> (MAX_FILE_SIZE_BYTES < size' ([big, a] ! j) \<longrightarrow>
           addFilesToQueue (take (Suc j) [big, a]) st0 =
             push (no_entry_sign @ '' '' @ name ([big, a] ! j) @ '' exceeds 5GB limit'') Failure
               (addFilesToQueue (take j [big, a]) st0))
      \<and> (size' ([big, a] ! j) \<le> MAX_FILE_SIZE_BYTES \<longrightarrow>
           (\<exists>u\<in>set (uploads (addFilesToQueue [big, a] st0)).
               file u = Some ([big, a] ! j) \<and> status u = Queued)
         \<and> (\<exists>new. queue (addFilesToQueue (take (Suc j) [big, a]) st0) =
                     queue (addFilesToQueue (take j [big, a]) st0) @ new
                \<and> (\<forall>s\<in>set new. severity s = Info)))"
    and lim: "n < length [big, a] \<longrightarrow>
        MAX_FILES \<le> length (uploads (addFilesToQueue (take n [big, a]) st0))"
    by blast
  have "n = 2"
  proof (rule ccontr)
    assume "n \<noteq> 2"
    with n have "n = 0 \<or> n = 1" by auto
    with lim u0 show False by (auto simp: MAX_FILES_def simp del: addFilesToQueue.simps)
  qed
  then have lt: "0 < n" "1 < n" by simp_all
  from each[rule_format, OF lt(1)]
  have e0: "MAX_FILE_SIZE_BYTES < size' ([big, a] ! 0) \<longrightarrow>
           addFilesToQueue (take (Suc 0) [big, a]) st0 =
             push (no_entry_sign @ '' '' @ name ([big, a] ! 0) @ '' exceeds 5GB limit'') Failure
               (addFilesToQueue (take 0 [big, a]) st0)"
    by blast
  from each[rule_format, OF lt(2)]
  have e1: "size' ([big, a] ! 1) \<le> MAX_FILE_SIZE_BYTES \<longrightarrow>
           (\<exists>u\<in>set (uploads (addFilesToQueue [big, a] st0)).
               file u = Some ([big, a] ! 1) \<and> status u = Queued)"
    by blast
  from e0 sizes(1) have 1: "addFilesToQueue [big] st0 =
      push (no_entry_sign @ '' big.bin exceeds 5GB limit'') Failure st0"
    by (simp add: nm del: addFilesToQueue.simps(2))
  from e1 sizes(2) have 2: "\<exists>u\<in>set (uploads (addFilesToQueue [big, a] st0)).
      file u = Some a \<and> status u = Queued"
    by (simp del: addFilesToQueue.simps(2))
  define fs where "fs = replicate 100 a @ [big, c]"
  have tk: "take j fs = replicate j a" if "j \<le> 100" for j
    using that by (simp add: fs_def min_def)
  have fill: "length (uploads (addFilesToQueue (replicate j a) st0)) = j" if "j \<le> 100" for j
    using that addFilesToQueue_fill[of st0 "replicate j a"] sizes(2)
    by (simp add: st0_def MAX_FILES_def)
  from addFilesToQueue_rejections[of fs st0]
  obtain m where m: "m \<le> length fs"
    and each': "\<forall>j<m. length (uploads (addFilesToQueue (take j fs) st0)) < MAX_FILES"
    and lim': "m < length fs \<longrightarrow>
        MAX_FILES \<le> length (uploads (addFilesToQueue (take m fs) st0))
      \<and> addFilesToQueue fs st0 =
          push ''Upload limit reached (100 files)'' Warning (addFilesToQueue (take m fs) st0)"
    by blast
  have "m = 100"
  proof (rule ccontr)
    assume ne: "m \<noteq> 100"
    show False
    proof (cases "m < 100")
      case True
      then have "m < length fs" by (simp add: fs_def)
      with lim' have "MAX_FILES \<le> length (uploads (addFilesToQueue (take m fs) st0))" by blast
      with True tk[of m] fill[of m] show False by (simp add: MAX_FILES_def)
    next
      case False
      with ne have "100 < m" by simp
      with each' have "length (uploads (addFilesToQueue (take 100 fs) st0)) < MAX_FILES"
        by blast
      with tk[of 100] fill[of 100] show False by (simp add: MAX_FILES_def)
    qed
  qed
  with lim' tk[of 100] have 3: "addFilesToQueue fs st0 =
      push ''Upload limit reached (100 files)'' Warning (addFilesToQueue (replicate 100 a) st0)"
    by (simp add: fs_def)
  from 1 2 3 show ?thesis
    unfolding st0_def big_def a_def c_def fs_def by simp
qed
section \<open>The concurrency cap\<close>

subsection \<open>Every event keeps the identifiers distinct and starts no upload\<close>

lemma uploads_setUploads [simp]: "uploads (setUploads g st) = g (uploads st)"
  by (simp add: setUploads_def)

lemma uuids_setUploads [simp]: "uuids (setUploads g st) = uuids st"
  by (simp add: setUploads_def)

lemma count_map_le:
  assumes "\<And>u. P (g u) \<Longrightarrow> P u"
  shows "length (filter P (map g us)) \<le> length (filter P us)"
proof (induction us)
  case Nil
  show ?case by simp
next
  case (Cons u us)
  then show ?case using assms[of u] by auto
qed

lemma count_update_le:
  "\<not> P y \<Longrightarrow> length (filter P (xs[k := y])) \<le> length (filter P xs)"
proof (induction xs arbitrary: k)
  case Nil
  show ?case by simp
next
  case (Cons x xs)
  show ?case
  proof (cases k)
    case 0
    with Cons.prems show ?thesis by simp
  next
    case (Suc j)
    with Cons.IH[OF Cons.prems, of j] show ?thesis by simp
  qed
qed

lemma ids_update:
  "k < length xs \<Longrightarrow> id' y = id' (xs ! k) \<Longrightarrow> map id' (xs[k := y]) = map id' xs"
  by (simp add: map_update list_update_same_conv)

lemma ids_map:
  fixes g :: "UploadFileMeta \<Rightarrow> UploadFileMeta"
  assumes "\<And>u. id' (g u) = id' u"
  shows "map id' (map g us) = map id' us"
  by (induction us) (simp_all add: assms)

lemma distinctIds_alt:
  "distinctIds st \<longleftrightarrow>
     distinct (map id' (uploads st)) \<and> (\<forall>k\<in>set (map id' (uploads st)). k < uuids st)"
  by (auto simp: distinctIds_def)

lemma distinctIds_same_ids:
  assumes "distinctIds st" and "map id' (uploads st') = map id' (uploads st)"
    and "uuids st \<le> uuids st'"
  shows "distinctIds st'"
  using assms unfolding distinctIds_alt by (simp only:) force

lemma distinctIds_map:
  fixes g :: "UploadFileMeta \<Rightarrow> UploadFileMeta"
  assumes "distinctIds st" and "\<And>u. id' (g u) = id' u"
  shows "distinctIds (setUploads (map g) st)"
  using assms(1)
  by (rule distinctIds_same_ids) (simp_all add: assms(2))

lemma distinctIds_push: "distinctIds st \<Longrightarrow> distinctIds (push m sev st)"
  by (erule distinctIds_same_ids) simp_all

lemma uploadingCount_push [simp]: "uploadingCount (push m sev st) = uploadingCount st"
  by (simp add: uploadingCount_def)

lemma uploadingCount_map_le:
  fixes g :: "UploadFileMeta \<Rightarrow> UploadFileMeta"
  assumes "\<And>u. status (g u) = Uploading \<Longrightarrow> status u = Uploading"
  shows "uploadingCount (setUploads (map g) st) \<le> uploadingCount st"
proof -
  have "length (filter (\<lambda>u. status u = Uploading) (map g (uploads st)))
      \<le> length (filter (\<lambda>u. status u = Uploading) (uploads st))"
    by (rule count_map_le) (rule assms)
  then show ?thesis by (simp only: uploadingCount_def uploads_setUploads)
qed

lemma addFilesToQueue_invariant:
  "distinctIds st \<Longrightarrow>
   distinctIds (addFilesToQueue fs st) \<and>
   uploadingCount (addFilesToQueue fs st) \<le> uploadingCount st"
proof (induction fs arbitrary: st)
  case Nil
  then show ?case by simp
next
  case (Cons g fs)
  define idx where "idx = findIndex (matchesPlaceholder g) (uploads st)"
  define st1 where "st1 = push (no_entry_sign @ '' '' @ name g @ '' exceeds 5GB limit'') Failure st"
  define st2 where "st2 = push (''Resuming '' @ name g @ ellipsis) Info
                 (st\<lparr>uploads := (uploads st)
                     [nat idx := (uploads st ! nat idx)\<lparr>file := Some g, status := Queued, error := None,
                                          fileLastModified := Some (lastModified g)\<rparr>]\<rparr>)"
  define st3 where "st3 = st\<lparr>uploads := uploads st @
                   [\<lparr>id' = uuids st, file = Some g, fileName = name g, fileSize = size' g,
                     fileLastModified = Some (lastModified g), status = Queued,
                     progress = 0, uploadedBytes = 0, uploadId = None,
                     chunkSize = DEFAULT_CHUNK_SIZE, chunks = [], error = None,
                     controller = False, completing = False, fileUrl = None\<rparr>],
                 uuids := Suc (uuids st)\<rparr>"
  have step: "addFilesToQueue (g # fs) st =
      (if MAX_FILES \<le> length (uploads st)
       then push ''Upload limit reached (100 files)'' Warning st
       else addFilesToQueue fs (if MAX_FILE_SIZE_BYTES < size' g then st1
                          else if 0 \<le> idx then st2 else st3))"
    by (simp add: Let_def idx_def st1_def st2_def st3_def)
  have 1: "distinctIds st1 \<and> uploadingCount st1 \<le> uploadingCount st"
    using Cons.prems by (simp add: st1_def distinctIds_push)
  have 2: "distinctIds st2 \<and> uploadingCount st2 \<le> uploadingCount st" if "0 \<le> idx"
  proof -
    from that have k: "nat idx < length (uploads st)"
      using findIndex_found[of "matchesPlaceholder g" "uploads st"] by (simp add: idx_def)
    have ids: "map id' ((uploads st)[nat idx := (uploads st ! nat idx)\<lparr>file := Some g,
         status := Queued, error := None, fileLastModified := Some (lastModified g)\<rparr>])
         = map id' (uploads st)"
      using k by (intro ids_update) simp_all
    have "distinctIds st2"
      using Cons.prems by (rule distinctIds_same_ids) (simp_all add: st2_def ids)
    moreover have "uploadingCount st2 \<le> uploadingCount st"
      unfolding st2_def uploadingCount_def by (simp add: count_update_le)
    ultimately show ?thesis by simp
  qed
  have "distinctIds st3"
    using Cons.prems unfolding distinctIds_def st3_def by (simp add: less_Suc_eq) force
  moreover have "uploadingCount st3 \<le> uploadingCount st"
    unfolding uploadingCount_def st3_def by simp
  ultimately have 3: "distinctIds st3 \<and> uploadingCount st3 \<le> uploadingCount st" by simp
  show ?case
  proof (cases "MAX_FILES \<le> length (uploads st)")
    case True
    with Cons.prems show ?thesis unfolding step by (simp add: distinctIds_push)
  next
    case False
    define st' where "st' = (if MAX_FILE_SIZE_BYTES < size' g then st1
                          else if 0 \<le> idx then st2 else st3)"
    have a: "distinctIds st' \<and> uploadingCount st' \<le> uploadingCount st"
      using 1 2 3 by (simp add: st'_def)
    then have "distinctIds (addFilesToQueue fs st') \<and>
        uploadingCount (addFilesToQueue fs st') \<le> uploadingCount st'"
      by (intro Cons.IH) simp
    with a False show ?thesis unfolding step st'_def[symmetric] by simp
  qed
qed

lemma foldl_push_invariant:
  "distinctIds st \<Longrightarrow>
   distinctIds (foldl (\<lambda>s u. push m sev s) st xs) \<and>
   uploadingCount (foldl (\<lambda>s u. push m sev s) st xs) = uploadingCount st"
  by (induction xs arbitrary: st) (simp_all add: distinctIds_push)


lemma applyAction_invariant:
  assumes "distinctIds st"
  shows "distinctIds (applyAction a st) \<and> uploadingCount (applyAction a st) \<le> uploadingCount st"
proof (cases a)
  case (Pause i)
  have "distinctIds (pauseUpload i st)"
    unfolding pauseUpload_def using assms by (rule distinctIds_map) simp
  moreover have "uploadingCount (pauseUpload i st) \<le> uploadingCount st"
    unfolding pauseUpload_def by (rule uploadingCount_map_le) (simp split: if_splits)
  ultimately show ?thesis using Pause by simp
next
  case (Resume i)
  have "distinctIds (resumeUpload i st)"
    unfolding resumeUpload_def using assms by (rule distinctIds_map) simp
  moreover have "uploadingCount (resumeUpload i st) \<le> uploadingCount st"
    unfolding resumeUpload_def by (rule uploadingCount_map_le) (simp split: if_splits)
  ultimately show ?thesis using Resume by simp
next
  case (Cancel i)
  have "distinctIds (cancelUpload i st)"
    unfolding cancelUpload_def using assms by (rule distinctIds_map) simp
  moreover have "uploadingCount (cancelUpload i st) \<le> uploadingCount st"
    unfolding cancelUpload_def by (rule uploadingCount_map_le) (simp split: if_splits)
  ultimately show ?thesis using Cancel by simp
qed

lemma recoverMissingFile_invariant:
  assumes "distinctIds st"
  shows "distinctIds (recoverMissingFile i f st) \<and>
         uploadingCount (recoverMissingFile i f st) \<le> uploadingCount st"
proof -
  define g :: "UploadFileMeta \<Rightarrow> UploadFileMeta" where "g = (\<lambda>u. if id' u \<noteq> i then u
                   else if fileName u \<noteq> name f \<or> fileSize u \<noteq> size' f then u
                   else u\<lparr>file := Some f, fileLastModified := Some (lastModified f),
                          status := Queued, error := None\<rparr>)"
  define xs where "xs = filter (\<lambda>u. id' u = i \<and> (fileName u \<noteq> name f \<or> fileSize u \<noteq> size' f))
                          (uploads st)"
  define m where "m = ''File doesn't match the original (name/size)''"
  have eq: "recoverMissingFile i f st =
      foldl (\<lambda>s u. push m Failure s) (setUploads (map g) st) xs"
    unfolding recoverMissingFile_def Let_def g_def xs_def m_def ..
  have d: "distinctIds (setUploads (map g) st)"
    using assms by (rule distinctIds_map) (simp add: g_def)
  have c: "uploadingCount (setUploads (map g) st) \<le> uploadingCount st"
    by (rule uploadingCount_map_le) (simp add: g_def split: if_splits)
  from foldl_push_invariant[OF d, of m Failure xs] c show ?thesis
    unfolding eq by simp
qed

lemma startFileUpload_done_invariant:
  assumes "distinctIds st"
  shows "distinctIds (startFileUpload_done i st) \<and>
         uploadingCount (startFileUpload_done i st) \<le> uploadingCount st"
proof -
  define g :: "UploadFileMeta \<Rightarrow> UploadFileMeta" where "g = (\<lambda>u. if id' u = i \<and> status u \<noteq> Paused \<and> status u \<noteq> Canceled
                  then u\<lparr>status := Done, controller := False, completing := False,
                         progress := 100\<rparr>
                  else u)"
  have d: "distinctIds (setUploads (map g) st)"
    using assms by (rule distinctIds_map) (simp add: g_def)
  have c: "uploadingCount (setUploads (map g) st) \<le> uploadingCount st"
    by (rule uploadingCount_map_le) (simp add: g_def split: if_splits)
  show ?thesis
    unfolding startFileUpload_done_def Let_def g_def[symmetric]
    using d c by (simp add: distinctIds_push)
qed

lemma startFileUpload_catch_invariant:
  assumes "distinctIds st"
  shows "distinctIds (startFileUpload_catch e i st) \<and>
         uploadingCount (startFileUpload_catch e i st) \<le> uploadingCount st"
proof -
  define msg where "msg = (if err_message e = [] then ''Upload failed'' else err_message e)"
  define g :: "UploadFileMeta \<Rightarrow> UploadFileMeta" where "g = (\<lambda>u. if id' u = i
                    then u\<lparr>status := Error, error := Some msg, controller := False,
                           completing := False\<rparr>
                    else u)"
  have d: "distinctIds (setUploads (map g) st)"
    using assms by (rule distinctIds_map) (simp add: g_def)
  have c: "uploadingCount (setUploads (map g) st) \<le> uploadingCount st"
    by (rule uploadingCount_map_le) (simp add: g_def split: if_splits)
  show ?thesis
    unfolding startFileUpload_catch_def Let_def msg_def[symmetric] g_def[symmetric]
    using d c assms by (simp add: distinctIds_push)
qed

lemma applyEvent_invariant:
  "distinctIds st \<Longrightarrow>
   distinctIds (applyEvent ev st) \<and> uploadingCount (applyEvent ev st) \<le> uploadingCount st"
  by (cases ev)
     (simp_all add: addFilesToQueue_invariant applyAction_invariant
        recoverMissingFile_invariant startFileUpload_done_invariant
        startFileUpload_catch_invariant)

lemma count_begin_le:
  fixes us :: "UploadFileMeta list"
  shows "distinct (map id' us) \<Longrightarrow>
   length (filter (\<lambda>u. status u = Uploading)
     (map (\<lambda>u. if id' u = i then u\<lparr>status := Uploading, error := None\<rparr> else u) us))
   \<le> Suc (length (filter (\<lambda>u. status u = Uploading) us))"
proof (induction us)
  case Nil
  show ?case by simp
next
  case (Cons u us)
  show ?case
  proof (cases "id' u = i")
    case True
    from Cons.prems have notin: "id' u \<notin> set (map id' us)" by simp
    have "id' v \<noteq> i" if "v \<in> set us" for v
    proof
      assume "id' v = i"
      moreover from that have "id' v \<in> set (map id' us)" by simp
      ultimately show False using notin True by simp
    qed
    then have "\<forall>v\<in>set us. id' v \<noteq> i" by blast
    then have "map (\<lambda>u. if id' u = i then u\<lparr>status := Uploading, error := None\<rparr> else u) us = us"
      by (intro map_idI) simp
    with True show ?thesis by simp
  next
    case False
    with Cons show ?thesis by simp
  qed
qed

lemma startFileUpload_begin_invariant:
  assumes "distinctIds st"
  shows "distinctIds (startFileUpload_begin i st) \<and>
         uploadingCount (startFileUpload_begin i st) \<le> Suc (uploadingCount st)"
proof -
  have "distinctIds (startFileUpload_begin i st)"
    unfolding startFileUpload_begin_def using assms by (rule distinctIds_map) simp
  moreover have "uploadingCount (startFileUpload_begin i st) \<le> Suc (uploadingCount st)"
    using assms count_begin_le[of "uploads st" i]
    by (simp only: startFileUpload_begin_def uploadingCount_def uploads_setUploads
          distinctIds_def)
  ultimately show ?thesis by simp
qed

lemma foldl_begin_invariant:
  "distinctIds st \<Longrightarrow>
   distinctIds (foldl (\<lambda>s u. startFileUpload_begin (id' u) s) st xs) \<and>
   uploadingCount (foldl (\<lambda>s u. startFileUpload_begin (id' u) s) st xs)
     \<le> uploadingCount st + length xs"
proof (induction xs arbitrary: st)
  case Nil
  then show ?case by simp
next
  case (Cons x xs)
  from startFileUpload_begin_invariant[OF Cons.prems, of "id' x"]
  have b: "distinctIds (startFileUpload_begin (id' x) st)"
    "uploadingCount (startFileUpload_begin (id' x) st) \<le> Suc (uploadingCount st)"
    by simp_all
  from Cons.IH[OF b(1)] b(2) show ?case by simp
qed

lemma promoteQueued_invariant:
  assumes "distinctIds st" and "int (uploadingCount st) \<le> MAX_PARALLEL_FILES"
  shows "distinctIds (promoteQueued st) \<and>
         int (uploadingCount (promoteQueued st)) \<le> MAX_PARALLEL_FILES"
proof (cases "MAX_PARALLEL_FILES - int (uploadingCount st) \<le> 0")
  case True
  with assms show ?thesis
    by (simp add: promoteQueued_def Let_def uploadingCount_def)
next
  case False
  define xs where "xs = take (nat (MAX_PARALLEL_FILES - int (uploadingCount st)))
                    (filter (\<lambda>u. status u = Queued \<and> file u \<noteq> None) (uploads st))"
  have eq: "promoteQueued st = foldl (\<lambda>s u. startFileUpload_begin (id' u) s) st xs"
    using False by (simp add: promoteQueued_def Let_def uploadingCount_def xs_def)
  have "length xs \<le> nat (MAX_PARALLEL_FILES - int (uploadingCount st))"
    by (simp add: xs_def)
  with foldl_begin_invariant[OF assms(1), of xs] False show ?thesis
    unfolding eq by linarith
qed

lemma step_invariant:
  assumes "distinctIds st" and "int (uploadingCount st) \<le> MAX_PARALLEL_FILES"
  shows "distinctIds (step st ev) \<and> int (uploadingCount (step st ev)) \<le> MAX_PARALLEL_FILES
       \<and> int (uploadingCount (applyEvent ev st)) \<le> MAX_PARALLEL_FILES"
proof -
  from applyEvent_invariant[OF assms(1), of ev] assms(2)
  have a: "distinctIds (applyEvent ev st)"
    "int (uploadingCount (applyEvent ev st)) \<le> MAX_PARALLEL_FILES" by simp_all
  from promoteQueued_invariant[OF a] a(2) show ?thesis by (simp add: step_def)
qed

lemma run_invariant:
  assumes "distinctIds st" and "int (uploadingCount st) \<le> MAX_PARALLEL_FILES"
  shows "distinctIds (foldl step st evs) \<and>
         int (uploadingCount (foldl step st evs)) \<le> MAX_PARALLEL_FILES"
  using assms
proof (induction evs arbitrary: st)
  case Nil
  then show ?case by simp
next
  case (Cons ev evs)
  from step_invariant[OF Cons.prems, of ev] show ?case by (simp add: Cons.IH)
qed

subsection \<open>At most three uploads at a time\<close>

text \<open>
  C7. From a state whose records have distinct identifiers and of which at most
  \<^verbatim>\<open>MAX_PARALLEL_FILES\<close> = 3 are uploading, after any sequence of enqueue, pause,
  resume, cancel and recover actions and pipeline completions, each followed by the
  promotion effect, at most 3 records have status "uploading", also between an event
  and the effect that follows it. Enqueueing five admissible files on the empty
  queue puts the first three into "uploading" and leaves two "queued"; when the
  pipeline of the first one completes, the fourth is started.
\<close>

theorem uploading_count_bounded:
  assumes "distinctIds st" and "int (uploadingCount st) \<le> MAX_PARALLEL_FILES"
  shows "int (uploadingCount (foldl step st evs)) \<le> MAX_PARALLEL_FILES
       \<and> (\<forall>ev. int (uploadingCount (applyEvent ev (foldl step st evs))) \<le> MAX_PARALLEL_FILES)
       \<and> ((\<forall>f\<in>set [f1, f2, f3, f4, f5]. size' f \<le> MAX_FILE_SIZE_BYTES) \<longrightarrow>
            map status (uploads (step \<lparr>uploads = [], queue = [], uuids = 0\<rparr>
              (Enqueue [f1, f2, f3, f4, f5]))) =
              [Uploading, Uploading, Uploading, Queued, Queued]
          \<and> map status (uploads (step (step \<lparr>uploads = [], queue = [], uuids = 0\<rparr>
              (Enqueue [f1, f2, f3, f4, f5])) (PipelineDone 0))) =
              [Done, Uploading, Uploading, Uploading, Queued])"
proof (intro conjI allI impI)
  from run_invariant[OF assms, of evs]
  have inv: "distinctIds (foldl step st evs)"
    "int (uploadingCount (foldl step st evs)) \<le> MAX_PARALLEL_FILES" by simp_all
  show "int (uploadingCount (foldl step st evs)) \<le> MAX_PARALLEL_FILES" by (rule inv(2))
  show "int (uploadingCount (applyEvent ev (foldl step st evs))) \<le> MAX_PARALLEL_FILES" for ev
    using step_invariant[OF inv, of ev] by simp
next
  assume "\<forall>f\<in>set [f1, f2, f3, f4, f5]. size' f \<le> MAX_FILE_SIZE_BYTES"
  then have ok: "\<not> MAX_FILE_SIZE_BYTES < size' f1" "\<not> MAX_FILE_SIZE_BYTES < size' f2"
    "\<not> MAX_FILE_SIZE_BYTES < size' f3" "\<not> MAX_FILE_SIZE_BYTES < size' f4"
    "\<not> MAX_FILE_SIZE_BYTES < size' f5" by simp_all
  show "map status (uploads (step \<lparr>uploads = [], queue = [], uuids = 0\<rparr>
              (Enqueue [f1, f2, f3, f4, f5]))) =
              [Uploading, Uploading, Uploading, Queued, Queued]"
    using ok
    by (simp add: step_def promoteQueued_def startFileUpload_begin_def setUploads_def
          matchesPlaceholder_def MAX_FILES_def MAX_PARALLEL_FILES_def Let_def)
  show "map status (uploads (step (step \<lparr>uploads = [], queue = [], uuids = 0\<rparr>
              (Enqueue [f1, f2, f3, f4, f5])) (PipelineDone 0))) =
              [Done, Uploading, Uploading, Uploading, Queued]"
    using ok
    by (simp add: step_def promoteQueued_def startFileUpload_begin_def setUploads_def
          startFileUpload_done_def push_def findById_def matchesPlaceholder_def
          MAX_FILES_def MAX_PARALLEL_FILES_def Let_def)
qed

text \<open>
  The bound after enqueueing five files, pausing and resuming the first, cancelling the
  second and completing the third.
\<close>

theorem uploading_count_bounded_witness:
  "distinctIds \<lparr>uploads = [], queue = [], uuids = 0\<rparr>
   \<and> int (uploadingCount \<lparr>uploads = [], queue = [], uuids = 0\<rparr>) \<le> MAX_PARALLEL_FILES
   \<and> int (uploadingCount (foldl step \<lparr>uploads = [], queue = [], uuids = 0\<rparr>
        [Enqueue (replicate 5 \<lparr>name = ''a.bin'', size' = 10, lastModified = 1\<rparr>),
         User (Pause 0), User (Resume 0), User (Cancel 1), PipelineDone 2]))
       \<le> MAX_PARALLEL_FILES
   \<and> map status (uploads (step \<lparr>uploads = [], queue = [], uuids = 0\<rparr>
        (Enqueue (replicate 5 \<lparr>name = ''a.bin'', size' = 10, lastModified = 1\<rparr>)))) =
       [Uploading, Uploading, Uploading, Queued, Queued]"
proof -
  define st0 :: ManagerState where "st0 = \<lparr>uploads = [], queue = [], uuids = 0\<rparr>"
  define a :: File where "a = \<lparr>name = ''a.bin'', size' = 10, lastModified = 1\<rparr>"
  have h1: "distinctIds st0" by (simp add: st0_def distinctIds_def)
  have h2: "int (uploadingCount st0) \<le> MAX_PARALLEL_FILES"
    by (simp add: st0_def uploadingCount_def MAX_PARALLEL_FILES_def)
  have h3: "\<forall>f\<in>set [a, a, a, a, a]. size' f \<le> MAX_FILE_SIZE_BYTES"
    by (simp add: a_def MAX_FILE_SIZE_BYTES_def)
  have r: "[a, a, a, a, a] = replicate 5 a" by (simp add: numeral_eq_Suc)
  from uploading_count_bounded[OF h1 h2,
      of "[Enqueue (replicate 5 a), User (Pause 0), User (Resume 0), User (Cancel 1),
           PipelineDone 2]" a a a a a] h1 h2 h3
  have "distinctIds st0 \<and> int (uploadingCount st0) \<le> MAX_PARALLEL_FILES
     \<and> int (uploadingCount (foldl step st0
          [Enqueue (replicate 5 a), User (Pause 0), User (Resume 0), User (Cancel 1),
           PipelineDone 2])) \<le> MAX_PARALLEL_FILES
     \<and> map status (uploads (step st0 (Enqueue (replicate 5 a)))) =
         [Uploading, Uploading, Uploading, Queued, Queued]"
    unfolding r st0_def by blast
  then show ?thesis unfolding st0_def a_def .
qed

section \<open>The retry policy\<close>

subsection \<open>Events of one attempt and of the retry loop\<close>

lemma attemptCount_append [simp]:
  "attemptCount (xs @ ys) = attemptCount xs + attemptCount ys"
  by (induction xs rule: attemptCount.induct) simp_all

lemma sleeps_append [simp]: "sleeps (xs @ ys) = sleeps xs @ sleeps ys"
  by (induction xs rule: sleeps.induct) simp_all

lemma puts_append [simp]: "puts (xs @ ys) = puts xs @ puts ys"
  by (induction xs rule: puts.induct) simp_all

lemma tryAttempt_events:
  assumes "tryAttempt a i meta cm st = (r, st', evs)"
  shows "evs = [GetPartUrl (index cm + 1)]
       \<or> evs = [GetPartUrl (index cm + 1), Put (index cm) (start cm) (end' cm)]
       \<or> evs = [GetPartUrl (index cm + 1), Put (index cm) (start cm) (end' cm),
                 ChunkUploaded (index cm)]"
    and "r = Inr () \<longleftrightarrow> evs = [GetPartUrl (index cm + 1), Put (index cm) (start cm) (end' cm),
                 ChunkUploaded (index cm)]"
  using assms unfolding tryAttempt_def Let_def
  by (auto split: option.splits sum.splits if_splits)

lemma retryLoop_unfold:
  "k \<le> CHUNK_MAX_RETRIES \<Longrightarrow>
   retryLoop env i meta cm k lastErr st =
     (case tryAttempt (env k) i meta cm st of
        (Inr u, st', evs) \<Rightarrow> (Inr (), st', evs)
      | (Inl (stall, timeout, err), st', evs) \<Rightarrow>
          if CHUNK_MAX_RETRIES \<le> k \<or> \<not> retriable stall timeout err then (Inl err, st', evs)
          else (case retryLoop env i meta cm (k + 1) (Some err) st' of
                  (r, st'', evs') \<Rightarrow>
                    (r, st'', evs @ [Sleep (backoffDelay k (mathRandom (env k)))] @ evs')))"
  by (subst retryLoop.simps) (unfold Let_def, simp)

lemma retryLoop_success:
  assumes "tryAttempt (env k) i meta cm st = (Inr (), st', evs)" and "k \<le> CHUNK_MAX_RETRIES"
  shows "retryLoop env i meta cm k lastErr st = (Inr (), st', evs)"
  using assms by (simp add: retryLoop_unfold)

lemma retryLoop_throw:
  assumes "tryAttempt (env k) i meta cm st = (Inl (stall, timeout, err), st', evs)"
    and "k \<le> CHUNK_MAX_RETRIES"
    and "CHUNK_MAX_RETRIES \<le> k \<or> \<not> retriable stall timeout err"
  shows "retryLoop env i meta cm k lastErr st = (Inl err, st', evs)"
  using assms by (simp add: retryLoop_unfold)

lemma retryLoop_retry:
  assumes "tryAttempt (env k) i meta cm st = (Inl (stall, timeout, err), st', evs)"
    and "k < CHUNK_MAX_RETRIES" and "retriable stall timeout err"
    and "retryLoop env i meta cm (k + 1) (Some err) st' = (r, st'', evs')"
  shows "retryLoop env i meta cm k lastErr st =
           (r, st'', evs @ Sleep (backoffDelay k (mathRandom (env k))) # evs')"
  using assms by (simp add: retryLoop_unfold)

lemma retryLoop_cases:
  assumes "k \<le> CHUNK_MAX_RETRIES"
  obtains
    (success) st' evs where
      "tryAttempt (env k) i meta cm st = (Inr (), st', evs)"
      "retryLoop env i meta cm k lastErr st = (Inr (), st', evs)"
  | (throw) stall timeout err st' evs where
      "tryAttempt (env k) i meta cm st = (Inl (stall, timeout, err), st', evs)"
      "CHUNK_MAX_RETRIES \<le> k \<or> \<not> retriable stall timeout err"
      "retryLoop env i meta cm k lastErr st = (Inl err, st', evs)"
  | (retry) stall timeout err st' evs r st'' evs' where
      "tryAttempt (env k) i meta cm st = (Inl (stall, timeout, err), st', evs)"
      "k < CHUNK_MAX_RETRIES" "retriable stall timeout err"
      "retryLoop env i meta cm (k + 1) (Some err) st' = (r, st'', evs')"
      "retryLoop env i meta cm k lastErr st =
         (r, st'', evs @ Sleep (backoffDelay k (mathRandom (env k))) # evs')"
proof -
  obtain res st' evs where t: "tryAttempt (env k) i meta cm st = (res, st', evs)"
    by (cases "tryAttempt (env k) i meta cm st") auto
  show thesis
  proof (cases res)
    case (Inr u)
    with t have "tryAttempt (env k) i meta cm st = (Inr (), st', evs)" by simp
    from this retryLoop_success[where env = env and k = k, OF this assms]
    show thesis by (rule success)
  next
    case (Inl f)
    obtain stall timeout err where f: "f = (stall, timeout, err)" by (cases f) auto
    with t Inl have t': "tryAttempt (env k) i meta cm st = (Inl (stall, timeout, err), st', evs)"
      by simp
    show thesis
    proof (cases "CHUNK_MAX_RETRIES \<le> k \<or> \<not> retriable stall timeout err")
      case True
      from t' True retryLoop_throw[where env = env and k = k, OF t' assms True]
      show thesis by (rule throw)
    next
      case False
      then have lt: "k < CHUNK_MAX_RETRIES" and re: "retriable stall timeout err" by simp_all
      obtain r st'' evs' where
        n: "retryLoop env i meta cm (k + 1) (Some err) st' = (r, st'', evs')"
        by (cases "retryLoop env i meta cm (k + 1) (Some err) st'") auto
      from t' lt re n retryLoop_retry[where env = env and k = k, OF t' lt re n]
      show thesis by (rule retry)
    qed
  qed
qed

lemma retryLoop_events:
  assumes "k \<le> CHUNK_MAX_RETRIES"
    and "retryLoop env i meta cm k lastErr st = (r, st', evs)"
  shows "evs \<noteq> [] \<and> hd evs = GetPartUrl (index cm + 1)
       \<and> 1 \<le> attemptCount evs \<and> k + attemptCount evs \<le> Suc CHUNK_MAX_RETRIES
       \<and> sleeps evs = map (\<lambda>j. backoffDelay j (mathRandom (env j)))
                         [k ..< k + attemptCount evs - 1]
       \<and> set (puts evs) \<subseteq> {index cm}
       \<and> (\<forall>x. ChunkUploaded x \<in> set evs \<longrightarrow> x = index cm)
       \<and> (r = Inr () \<longrightarrow> ChunkUploaded (index cm) \<in> set evs)"
  using assms
proof (induction "CHUNK_MAX_RETRIES - k" arbitrary: k lastErr st r st' evs)
  case 0
  then have k: "k = CHUNK_MAX_RETRIES" by simp
  from "0.prems"(1) show ?case
  proof (cases rule: retryLoop_cases[of k env i meta cm st lastErr])
    case (success st1 evs1)
    with "0.prems"(2) have "evs = evs1" "r = Inr ()" by simp_all
    with tryAttempt_events[OF success(1)] k show ?thesis by auto
  next
    case (throw stall timeout err st1 evs1)
    with "0.prems"(2) have "evs = evs1" "r = Inl err" by simp_all
    with tryAttempt_events[OF throw(1)] k show ?thesis by auto
  next
    case (retry stall timeout err st1 evs1 r2 st2 evs2)
    with k show ?thesis by simp
  qed
next
  case (Suc n)
  from Suc.prems(1) show ?case
  proof (cases rule: retryLoop_cases[of k env i meta cm st lastErr])
    case (success st1 evs1)
    with Suc.prems(2) have "evs = evs1" "r = Inr ()" by simp_all
    with tryAttempt_events[OF success(1)] Suc.hyps(2) show ?thesis by auto
  next
    case (throw stall timeout err st1 evs1)
    with Suc.prems(2) have "evs = evs1" "r = Inl err" by simp_all
    with tryAttempt_events[OF throw(1)] Suc.hyps(2) show ?thesis by auto
  next
    case (retry stall timeout err st1 evs1 r2 st2 evs2)
    with Suc.prems(2) have e: "evs = evs1 @ Sleep (backoffDelay k (mathRandom (env k))) # evs2"
      and r: "r = r2" by simp_all
    have "n = CHUNK_MAX_RETRIES - (k + 1)" using Suc.hyps(2) by simp
    moreover have "k + 1 \<le> CHUNK_MAX_RETRIES" using retry(2) by simp
    ultimately have IH: "evs2 \<noteq> [] \<and> hd evs2 = GetPartUrl (index cm + 1)
       \<and> 1 \<le> attemptCount evs2 \<and> (k + 1) + attemptCount evs2 \<le> Suc CHUNK_MAX_RETRIES
       \<and> sleeps evs2 = map (\<lambda>j. backoffDelay j (mathRandom (env j)))
                         [k + 1 ..< (k + 1) + attemptCount evs2 - 1]
       \<and> set (puts evs2) \<subseteq> {index cm}
       \<and> (\<forall>x. ChunkUploaded x \<in> set evs2 \<longrightarrow> x = index cm)
       \<and> (r2 = Inr () \<longrightarrow> ChunkUploaded (index cm) \<in> set evs2)"
      using retry(4) by (rule Suc.hyps(1))
    from tryAttempt_events[OF retry(1)]
    have t: "evs1 = [GetPartUrl (index cm + 1)]
       \<or> evs1 = [GetPartUrl (index cm + 1), Put (index cm) (start cm) (end' cm)]"
      by auto
    have upt: "[k ..< k + (1 + attemptCount evs2) - 1] = k # [k + 1 ..< (k + 1) + attemptCount evs2 - 1]"
      using IH by (simp add: upt_conv_Cons)
    from t show ?thesis
    proof
      assume "evs1 = [GetPartUrl (index cm + 1)]"
      with e r IH upt show ?thesis by simp
    next
      assume "evs1 = [GetPartUrl (index cm + 1), Put (index cm) (start cm) (end' cm)]"
      with e r IH upt show ?thesis by simp
    qed
  qed
qed

lemma retryLoop_delay_then_attempt:
  assumes "k \<le> CHUNK_MAX_RETRIES"
    and "retryLoop env i meta cm k lastErr st = (r, st', evs)"
  shows "\<forall>n<length evs. \<forall>d. evs ! n = Sleep d \<longrightarrow>
           0 < n \<and> Suc n < length evs \<and> evs ! Suc n = GetPartUrl (index cm + 1)"
  using assms
proof (induction "CHUNK_MAX_RETRIES - k" arbitrary: k lastErr st r st' evs)
  case 0
  from "0.prems"(1) show ?case
  proof (cases rule: retryLoop_cases[of k env i meta cm st lastErr])
    case (success st1 evs1)
    with "0.prems"(2) have "evs = evs1" by simp
    with tryAttempt_events(1)[OF success(1)] show ?thesis
      by (auto simp: nth_Cons' less_Suc_eq)
  next
    case (throw stall timeout err st1 evs1)
    with "0.prems"(2) have "evs = evs1" by simp
    with tryAttempt_events(1)[OF throw(1)] show ?thesis
      by (auto simp: nth_Cons' less_Suc_eq)
  next
    case (retry stall timeout err st1 evs1 r2 st2 evs2)
    with "0.hyps" show ?thesis by simp
  qed
next
  case (Suc m)
  from Suc.prems(1) show ?case
  proof (cases rule: retryLoop_cases[of k env i meta cm st lastErr])
    case (success st1 evs1)
    with Suc.prems(2) have "evs = evs1" by simp
    with tryAttempt_events(1)[OF success(1)] show ?thesis
      by (auto simp: nth_Cons' less_Suc_eq)
  next
    case (throw stall timeout err st1 evs1)
    with Suc.prems(2) have "evs = evs1" by simp
    with tryAttempt_events(1)[OF throw(1)] show ?thesis
      by (auto simp: nth_Cons' less_Suc_eq)
  next
    case (retry stall timeout err st1 evs1 r2 st2 evs2)
    with Suc.prems(2) have e: "evs = evs1 @ Sleep (backoffDelay k (mathRandom (env k))) # evs2"
      by simp
    have m: "m = CHUNK_MAX_RETRIES - (k + 1)" using Suc.hyps(2) by simp
    have k1: "k + 1 \<le> CHUNK_MAX_RETRIES" using retry(2) by simp
    have IH: "\<forall>n<length evs2. \<forall>d. evs2 ! n = Sleep d \<longrightarrow>
           0 < n \<and> Suc n < length evs2 \<and> evs2 ! Suc n = GetPartUrl (index cm + 1)"
      using m k1 retry(4) by (rule Suc.hyps(1))
    from retryLoop_events[OF k1 retry(4)]
    have hd2: "evs2 \<noteq> []" "hd evs2 = GetPartUrl (index cm + 1)" by simp_all
    then have first2: "0 < length evs2" "evs2 ! 0 = GetPartUrl (index cm + 1)"
      by (simp_all add: hd_conv_nth)
    from tryAttempt_events[OF retry(1)]
    have t: "evs1 = [GetPartUrl (index cm + 1)]
       \<or> evs1 = [GetPartUrl (index cm + 1), Put (index cm) (start cm) (end' cm)]"
      by auto
    have nosleep: "evs1 ! n \<noteq> Sleep d" if "n < length evs1" for n d
      using t that by (auto simp: nth_Cons' less_Suc_eq)
    have pos: "0 < length evs1" using t by auto
    show ?thesis
    proof (intro allI impI)
      fix n d assume n: "n < length evs" and sl: "evs ! n = Sleep d"
      consider (a) "n < length evs1" | (b) "n = length evs1" | (c) "length evs1 < n"
        by linarith
      then show "0 < n \<and> Suc n < length evs \<and> evs ! Suc n = GetPartUrl (index cm + 1)"
      proof cases
        case a
        with sl e nosleep[of n d] show ?thesis by (simp add: nth_append)
      next
        case b
        with pos first2 e show ?thesis by (simp add: nth_append)
      next
        case c
        define j where "j = n - Suc (length evs1)"
        from c have nj: "n = length evs1 + Suc j" by (simp add: j_def)
        with n e have jl: "j < length evs2" by simp
        from sl e nj have "evs2 ! j = Sleep d" by (simp add: nth_append)
        with IH jl have "Suc j < length evs2" "evs2 ! Suc j = GetPartUrl (index cm + 1)"
          by blast+
        with e nj show ?thesis by (simp add: nth_append)
      qed
    qed
  qed
qed

lemma backoffDelay_bounds:
  assumes "0 \<le> x" and "x < 1"
  shows "BACKOFF_BASE_MS * 2 ^ k \<le> backoffDelay k x"
    and "backoffDelay k x < BACKOFF_BASE_MS * 2 ^ k + BACKOFF_JITTER_MS"
proof -
  have "0 \<le> x * real_of_int BACKOFF_JITTER_MS"
    using assms by (simp add: BACKOFF_JITTER_MS_def)
  then have "0 \<le> \<lfloor>x * real_of_int BACKOFF_JITTER_MS\<rfloor>" by simp
  then show "BACKOFF_BASE_MS * 2 ^ k \<le> backoffDelay k x" by (simp add: backoffDelay_def)
  have "x * real_of_int BACKOFF_JITTER_MS < real_of_int BACKOFF_JITTER_MS"
    using assms by (simp add: BACKOFF_JITTER_MS_def)
  then have "\<lfloor>x * real_of_int BACKOFF_JITTER_MS\<rfloor> < BACKOFF_JITTER_MS"
    by (simp add: floor_less_iff)
  then show "backoffDelay k x < BACKOFF_BASE_MS * 2 ^ k + BACKOFF_JITTER_MS"
    by (simp add: backoffDelay_def)
qed


subsection \<open>Which failures are retried\<close>

lemma retriable_iff:
  "retriable stall timeout err \<longleftrightarrow>
     stall \<or> timeout \<or> \<not> isAxiosError err \<or> response_status err = None
     \<or> response_status err = Some 0
     \<or> (\<exists>s. response_status err = Some s \<and> (s = 429 \<or> s = 408 \<or> s = 403 \<or> 500 \<le> s))"
  by (auto simp: retriable_def truthy_num_def Let_def split: option.splits)

lemmas example_defs =
  exampleFile_def exampleChunk_def exampleRecord_def exampleState_def failWith_def
  succeedWith_def

lemmas pipeline_defs =
  startFileUpload_begin_def uploadChunksSequentiallyWithRetry_def startFileUpload_done_def
  startFileUpload_catch_def tryAttempt_def onUploadProgress_def markChunkUploaded_def
  setUploads_def findById_def push_def truthy_num_def truthy_str_def retriable_def
  backoffDelay_def CHUNK_MAX_RETRIES_def BACKOFF_BASE_MS_def BACKOFF_JITTER_MS_def
  MAX_FILES_def MAX_FILE_SIZE_BYTES_def DEFAULT_CHUNK_SIZE_def matchesPlaceholder_def
  buildChunks_def buildChunks_loop.simps chunkLoop.simps retryLoop.simps
  pauseUpload_def resumeUpload_def cancelUpload_def Let_def

text \<open>
  C4. Let an attempt for a chunk fail while the retry budget is not used up. The loop
  makes a further attempt (after a backoff delay) if and only if the stall watchdog or
  the hard timeout has fired, or the failure carries no HTTP response status (a
  connection or transport error, or an error raised by the client itself, such as the
  missing ETag of an otherwise successful transfer), or the status is 429, 408, 403 or
  at least 500; for an HTTP status code, which lies between 100 and 599, that is 429,
  408, 403 or any 5xx. In every other case, in particular for any other 4xx status,
  the error is thrown at once: the loop ends with the events and the state of the
  failed attempt.
\<close>

theorem retried_iff_retriable:
  assumes "tryAttempt (env k) i meta cm st = (Inl (stall, timeout, err), st', evs)"
    and "k < CHUNK_MAX_RETRIES"
  shows "((\<exists>rest. snd (snd (retryLoop env i meta cm k lastErr st)) =
             evs @ Sleep (backoffDelay k (mathRandom (env k)))
                 # GetPartUrl (index cm + 1) # rest)
          \<longleftrightarrow> stall \<or> timeout \<or> \<not> isAxiosError err \<or> response_status err = None
               \<or> response_status err = Some 0
               \<or> (\<exists>s. response_status err = Some s \<and>
                      (s = 429 \<or> s = 408 \<or> s = 403 \<or> 500 \<le> s)))
       \<and> (\<not> (stall \<or> timeout \<or> \<not> isAxiosError err \<or> response_status err = None
               \<or> response_status err = Some 0
               \<or> (\<exists>s. response_status err = Some s \<and>
                      (s = 429 \<or> s = 408 \<or> s = 403 \<or> 500 \<le> s)))
            \<longrightarrow> retryLoop env i meta cm k lastErr st = (Inl err, st', evs))
       \<and> (\<not> stall \<and> \<not> timeout \<and>
            (\<exists>s m. err = AxiosError (Some s) m \<and> 400 \<le> s \<and> s < 500
                    \<and> s \<noteq> 429 \<and> s \<noteq> 408 \<and> s \<noteq> 403)
            \<longrightarrow> retryLoop env i meta cm k lastErr st = (Inl err, st', evs))
       \<and> (err = PlainError ''Missing ETag from storage response''
            \<longrightarrow> (\<exists>rest. snd (snd (retryLoop env i meta cm k lastErr st)) =
                   evs @ Sleep (backoffDelay k (mathRandom (env k)))
                       # GetPartUrl (index cm + 1) # rest))
       \<and> (\<forall>s m. \<not> stall \<and> \<not> timeout \<and> err = AxiosError (Some s) m
                  \<and> 100 \<le> s \<and> s \<le> 599 \<longrightarrow>
              ((\<exists>rest. snd (snd (retryLoop env i meta cm k lastErr st)) =
                   evs @ Sleep (backoffDelay k (mathRandom (env k)))
                       # GetPartUrl (index cm + 1) # rest)
               \<longleftrightarrow> s = 429 \<or> s = 408 \<or> s = 403 \<or> (500 \<le> s \<and> s \<le> 599)))"
proof -
  have le: "k \<le> CHUNK_MAX_RETRIES" using assms(2) by simp
  have retried: "\<exists>rest. snd (snd (retryLoop env i meta cm k lastErr st)) =
             evs @ Sleep (backoffDelay k (mathRandom (env k)))
                 # GetPartUrl (index cm + 1) # rest"
    if re: "retriable stall timeout err"
  proof -
    obtain r st'' evs' where
      n: "retryLoop env i meta cm (k + 1) (Some err) st' = (r, st'', evs')"
      by (cases "retryLoop env i meta cm (k + 1) (Some err) st'") auto
    have "k + 1 \<le> CHUNK_MAX_RETRIES" using assms(2) by simp
    from retryLoop_events[OF this n]
    have "evs' \<noteq> []" "hd evs' = GetPartUrl (index cm + 1)" by simp_all
    then obtain rest where "evs' = GetPartUrl (index cm + 1) # rest"
      by (cases evs') auto
    with retryLoop_retry[where env = env and k = k, OF assms(1) assms(2) re n]
    show ?thesis by simp
  qed
  have thrown: "retryLoop env i meta cm k lastErr st = (Inl err, st', evs)"
    if "\<not> retriable stall timeout err"
    using retryLoop_throw[where env = env and k = k, OF assms(1) le] that by simp
  have iff: "(\<exists>rest. snd (snd (retryLoop env i meta cm k lastErr st)) =
             evs @ Sleep (backoffDelay k (mathRandom (env k)))
                 # GetPartUrl (index cm + 1) # rest)
          \<longleftrightarrow> retriable stall timeout err"
  proof
    assume "retriable stall timeout err"
    then show "\<exists>rest. snd (snd (retryLoop env i meta cm k lastErr st)) =
             evs @ Sleep (backoffDelay k (mathRandom (env k)))
                 # GetPartUrl (index cm + 1) # rest" by (rule retried)
  next
    assume a: "\<exists>rest. snd (snd (retryLoop env i meta cm k lastErr st)) =
             evs @ Sleep (backoffDelay k (mathRandom (env k)))
                 # GetPartUrl (index cm + 1) # rest"
    show "retriable stall timeout err"
    proof (rule ccontr)
      assume "\<not> retriable stall timeout err"
      from thrown[OF this] a show False by simp
    qed
  qed
  have four: "\<not> retriable stall timeout err"
    if "\<not> stall \<and> \<not> timeout \<and>
            (\<exists>s m. err = AxiosError (Some s) m \<and> 400 \<le> s \<and> s < 500
                    \<and> s \<noteq> 429 \<and> s \<noteq> 408 \<and> s \<noteq> 403)"
    using that by (auto simp: retriable_iff)
  have etag: "retriable stall timeout err"
    if "err = PlainError ''Missing ETag from storage response''"
    using that by (simp add: retriable_iff)
  have http: "retriable stall timeout err \<longleftrightarrow>
      s = 429 \<or> s = 408 \<or> s = 403 \<or> (500 \<le> s \<and> s \<le> 599)"
    if "\<not> stall \<and> \<not> timeout \<and> err = AxiosError (Some s) m \<and> 100 \<le> s \<and> s \<le> 599"
    for s m
    using that by (auto simp: retriable_iff)
  have valid: "\<forall>s m. \<not> stall \<and> \<not> timeout \<and> err = AxiosError (Some s) m
                  \<and> 100 \<le> s \<and> s \<le> 599 \<longrightarrow>
              ((\<exists>rest. snd (snd (retryLoop env i meta cm k lastErr st)) =
                   evs @ Sleep (backoffDelay k (mathRandom (env k)))
                       # GetPartUrl (index cm + 1) # rest)
               \<longleftrightarrow> s = 429 \<or> s = 408 \<or> s = 403 \<or> (500 \<le> s \<and> s \<le> 599))"
    using iff http by blast
  have rest: "((\<exists>rest. snd (snd (retryLoop env i meta cm k lastErr st)) =
             evs @ Sleep (backoffDelay k (mathRandom (env k)))
                 # GetPartUrl (index cm + 1) # rest)
          \<longleftrightarrow> stall \<or> timeout \<or> \<not> isAxiosError err \<or> response_status err = None
               \<or> response_status err = Some 0
               \<or> (\<exists>s. response_status err = Some s \<and>
                      (s = 429 \<or> s = 408 \<or> s = 403 \<or> 500 \<le> s)))
       \<and> (\<not> (stall \<or> timeout \<or> \<not> isAxiosError err \<or> response_status err = None
               \<or> response_status err = Some 0
               \<or> (\<exists>s. response_status err = Some s \<and>
                      (s = 429 \<or> s = 408 \<or> s = 403 \<or> 500 \<le> s)))
            \<longrightarrow> retryLoop env i meta cm k lastErr st = (Inl err, st', evs))
       \<and> (\<not> stall \<and> \<not> timeout \<and>
            (\<exists>s m. err = AxiosError (Some s) m \<and> 400 \<le> s \<and> s < 500
                    \<and> s \<noteq> 429 \<and> s \<noteq> 408 \<and> s \<noteq> 403)
            \<longrightarrow> retryLoop env i meta cm k lastErr st = (Inl err, st', evs))
       \<and> (err = PlainError ''Missing ETag from storage response''
            \<longrightarrow> (\<exists>rest. snd (snd (retryLoop env i meta cm k lastErr st)) =
                   evs @ Sleep (backoffDelay k (mathRandom (env k)))
                       # GetPartUrl (index cm + 1) # rest))"
    using iff thrown four retried etag unfolding retriable_iff[symmetric] by blast
  from rest valid show ?thesis by blast
qed

text \<open>
  The classification at the example chunk: a first attempt that fails with status 500
  is followed by a delay and a second attempt; one that fails with status 404 ends the
  loop.
\<close>

theorem retried_iff_retriable_witness:
  "(\<exists>rest. snd (snd (retryLoop (\<lambda>k. failWith 500 ''Request failed with status code 500'') 0
       exampleRecord exampleChunk 0 None exampleState)) =
      [GetPartUrl 1, Put 0 0 10] @ Sleep 800 # GetPartUrl 1 # rest)
   \<and> retryLoop (\<lambda>k. failWith 404 ''Request failed with status code 404'') 0
       exampleRecord exampleChunk 0 None exampleState =
      (Inl (AxiosError (Some 404) ''Request failed with status code 404''), exampleState,
       [GetPartUrl 1, Put 0 0 10])"
proof -
  have t: "tryAttempt ((\<lambda>k. failWith s m) 0) 0 exampleRecord exampleChunk exampleState =
      (Inl (False, False, AxiosError (Some s) m), exampleState, [GetPartUrl 1, Put 0 0 10])"
    for s m
    by (simp add: tryAttempt_def example_defs findById_def Let_def)
  have k: "(0::nat) < CHUNK_MAX_RETRIES" by (simp add: CHUNK_MAX_RETRIES_def)
  have d: "backoffDelay 0 (mathRandom (failWith s m)) = 800" for s m
    by (simp add: backoffDelay_def failWith_def BACKOFF_BASE_MS_def)
  have i: "index exampleChunk + 1 = 1" by (simp add: exampleChunk_def)
  from retried_iff_retriable[where env = "\<lambda>k. failWith 500 ''Request failed with status code 500''"
      and k = 0 and lastErr = None, OF t k]
  have 1: "\<exists>rest. snd (snd (retryLoop (\<lambda>k. failWith 500 ''Request failed with status code 500'') 0
       exampleRecord exampleChunk 0 None exampleState)) =
      [GetPartUrl 1, Put 0 0 10] @ Sleep 800 # GetPartUrl 1 # rest"
    by (simp add: d i)
  from retried_iff_retriable[where env = "\<lambda>k. failWith 404 ''Request failed with status code 404''"
      and k = 0 and lastErr = None, OF t k]
  have 2: "retryLoop (\<lambda>k. failWith 404 ''Request failed with status code 404'') 0
       exampleRecord exampleChunk 0 None exampleState =
      (Inl (AxiosError (Some 404) ''Request failed with status code 404''), exampleState,
       [GetPartUrl 1, Put 0 0 10])"
    by simp
  from 1 2 show ?thesis by blast
qed


subsection \<open>Pipelines in the event loop\<close>

lemmas eventloop_defs =
  perform_def render.simps launch_def startFileUpload_def startFileUpload_ensured_def
  startFileUpload_uploaded_def startFileUpload_finalized_def startFileUpload_rejected_def
  startFileUpload_resolved_def finalizeUpload_def finalizeUpload_completed_def
  uploadChunks_start_def uploadChunks_for.simps uploadChunks_partUrl_def uploadChunks_put_def
  uploadChunks_slept_def uploadChunks_catch_def ensureUploadSession_def
  ensureUploadSession_initiated_def startFileUpload_begin_def
  pauseUpload_def resumeUpload_def cancelUpload_def
  onUploadProgress_def markChunkUploaded_def
  setUploads_def findById_def push_def truthy_num_def truthy_str_def retriable_def
  backoffDelay_def CHUNK_MAX_RETRIES_def BACKOFF_BASE_MS_def BACKOFF_JITTER_MS_def
  MAX_FILES_def MAX_FILE_SIZE_BYTES_def DEFAULT_CHUNK_SIZE_def MAX_PARALLEL_FILES_def
  matchesPlaceholder_def buildChunks_def buildChunks_loop.simps Let_def
  pausedBrowser_def emptyBrowser_def partUrlArrives_def putSucceeds_def putFails_def
  sleepEnds_def sessionStarts_def resumedRecord_def megaRecord_def exampleRecord_def
  exampleFile_def
  exampleChunk_def pausedDuringTransfer_def thirdChunkRetried_def onlyChunkExhausted_def

text \<open>
  The chunk lists of the example records are those that \<^verbatim>\<open>buildChunks\<close> plans.
\<close>

lemma example_chunks_planned:
  "buildChunks 10 10 [] Map.empty = Some (chunks exampleRecord)
   \<and> buildChunks 25 10 [2] [''2'' \<mapsto> ''e1''] = Some (chunks resumedRecord)
   \<and> buildChunks 1048576 262144 [] Map.empty = Some (chunks megaRecord)"
  by (simp add: buildChunks_def buildChunks_loop.simps exampleRecord_def exampleChunk_def
        resumedRecord_def megaRecord_def String_of_def digit_char_def)

text \<open>
  When the array that React has rendered last is the array of the state, the two
  blocks that end \<^verbatim>\<open>startFileUpload\<close> do what the scheduler above lets them do.
\<close>

lemma startFileUpload_rejected_current:
  "startFileUpload_rejected (uploads st) err i st = startFileUpload_catch err i st"
  by (simp add: startFileUpload_rejected_def startFileUpload_catch_def Let_def)

lemma finishedName_map:
  fixes g :: "UploadFileMeta \<Rightarrow> UploadFileMeta"
  assumes "\<And>u. id' (g u) = id' u" and "\<And>u. fileName (g u) = fileName u"
  shows "(case findById i (map g us) of None \<Rightarrow> a | Some u \<Rightarrow> h (fileName u)) =
         (case findById i us of None \<Rightarrow> a | Some u \<Rightarrow> h (fileName u))"
  unfolding findById_def by (induction us) (simp_all add: assms)

lemma startFileUpload_resolved_current:
  "startFileUpload_resolved (uploads st) i st = startFileUpload_done i st"
proof -
  define g :: "UploadFileMeta \<Rightarrow> UploadFileMeta" where
    "g = (\<lambda>u. if id' u = i \<and> status u \<noteq> Paused \<and> status u \<noteq> Canceled
               then u\<lparr>status := Done, controller := False, completing := False,
                      progress := 100\<rparr>
               else u)"
  have "(case findById i (map g (uploads st)) of None \<Rightarrow> ''file''
          | Some u \<Rightarrow> (\<lambda>n. if n = [] then ''file'' else n) (fileName u)) =
        (case findById i (uploads st) of None \<Rightarrow> ''file''
          | Some u \<Rightarrow> (\<lambda>n. if n = [] then ''file'' else n) (fileName u))"
    by (rule finishedName_map) (simp_all add: g_def)
  then show ?thesis
    by (simp add: startFileUpload_resolved_def startFileUpload_done_def Let_def
          setUploads_def g_def)
qed

text \<open>
  The first run of a file that has just been enqueued. When the backend has answered
  \<^verbatim>\<open>apiInitiateUpload\<close>, \<^verbatim>\<open>ensureUploadSession\<close> queues the update that stores the
  upload id and the chunks and returns; \<^verbatim>\<open>uploadChunksSequentiallyWithRetry\<close> goes
  on in the same task, reads the record as rendered before that update and throws
  "Missing uploadId". The record is set to "error" and holds the upload id and the
  chunks; nothing has been requested for a chunk.
\<close>

lemma first_run_of_an_enqueued_file:
  "\<exists>b. perform_all emptyBrowser [Drop [exampleFile], sessionStarts 0 10] = Some b
     \<and> map status (uploads (manager b)) = [Error]
     \<and> map error (uploads (manager b)) = [Some ''Missing uploadId'']
     \<and> map uploadId (uploads (manager b)) = [Some ''u1'']
     \<and> map chunks (uploads (manager b)) = [[exampleChunk]]
     \<and> pipelines b = [Settled] \<and> happened b = []"
  by (simp add: eventloop_defs)

text \<open>
  A run that transfers the last chunk of a file itself. \<^verbatim>\<open>finalizeUpload\<close> goes on
  in the task that has marked the chunk, reads the record as rendered before and finds
  a chunk that is not uploaded, so it returns without asking the backend to complete;
  the record is set to "done".
\<close>

lemma run_that_sends_the_last_chunk:
  "\<exists>b. perform_all (pausedBrowser exampleRecord)
     [Press (Resume 0), partUrlArrives 0, putSucceeds 0 ''etag''] = Some b
     \<and> map status (uploads (manager b)) = [Done]
     \<and> map (map uploaded \<circ> chunks) (uploads (manager b)) = [[True]]
     \<and> map fileUrl (uploads (manager b)) = [None]
     \<and> pipelines b = [Settled]
     \<and> happened b = [GetPartUrl 1, Put 0 0 10, ChunkUploaded 0]"
  by (simp add: eventloop_defs)

subsection \<open>Retry budget and backoff\<close>

lemma chunkLoop_throw:
  assumes "p < length (chunks meta0)" and "findById i (uploads st) = Some m"
    and "status m \<noteq> Paused" and "status m \<noteq> Canceled"
    and "p < length (chunks m)" and "\<not> uploaded (chunks m ! p)"
    and "retryLoop (env p) i m (chunks m ! p) 0 None st = (Inl err, st', evs)"
  shows "chunkLoop env i p meta0 st tr = Some (Inl err, st', tr @ evs)"
  using assms by (subst chunkLoop.simps) (simp add: Let_def)

lemma findById_map:
  fixes g :: "UploadFileMeta \<Rightarrow> UploadFileMeta"
  assumes "findById i us = Some u" and "\<And>u. id' (g u) = id' u"
  shows "findById i (map (\<lambda>u. if id' u = i then g u else u) us) = Some (g u)"
  using assms(1) unfolding findById_def
  by (induction us) (auto simp: assms(2) split: if_splits)

lemma startFileUpload_catch_marks:
  assumes "findById i (uploads st) = Some u" and "status u \<noteq> Paused"
    and "status u \<noteq> Canceled"
  shows "findById i (uploads (startFileUpload_catch err i st)) =
     Some (u\<lparr>status := Error,
             error := Some (if err_message err = [] then ''Upload failed'' else err_message err),
             controller := False, completing := False\<rparr>)"
proof -
  define msg where "msg = (if err_message err = [] then ''Upload failed'' else err_message err)"
  define g :: "UploadFileMeta \<Rightarrow> UploadFileMeta" where
    "g = (\<lambda>u. u\<lparr>status := Error, error := Some msg, controller := False,
                  completing := False\<rparr>)"
  have "startFileUpload_catch err i st =
      push (warning_sign @ '' '' @ msg) Failure
        (setUploads (map (\<lambda>u. if id' u = i then g u else u)) st)"
    unfolding startFileUpload_catch_def Let_def msg_def[symmetric] g_def
    using assms by simp
  moreover have "findById i (map (\<lambda>u. if id' u = i then g u else u) (uploads st)) = Some (g u)"
    using assms(1) by (rule findById_map) (simp add: g_def)
  ultimately have "findById i (uploads (startFileUpload_catch err i st)) = Some (g u)"
    by (simp only: uploads_push uploads_setUploads)
  then show ?thesis unfolding g_def msg_def .
qed

text \<open>
  C5. The retry loop of a chunk makes at least one and at most 5 attempts (one and
  \<^verbatim>\<open>CHUNK_MAX_RETRIES\<close> = 4 retries). Its first event is the request of the first
  attempt; every backoff delay is followed at once by the request of a further
  attempt, there is exactly one delay for each further attempt and none before the
  first, and the delay before retry \<open>j + 1\<close> is
  \<open>800 * 2 ^ j + \<lfloor>random * 250\<rfloor>\<close> milliseconds, a jitter of at least 0 and less than
  250 when \<^verbatim>\<open>Math.random()\<close> returns a value in \<open>[0, 1)\<close>. So a chunk that succeeds
  on its fourth attempt has seen exactly three delays. A failure of the fifth attempt
  is thrown whatever it is, and it is this last error that is thrown, not an earlier
  one; it leaves the chunk loop, and the \<^verbatim>\<open>catch\<close> block of \<^verbatim>\<open>startFileUpload\<close>
  sets the record to "error" with the message of that error, unless the user has
  paused or canceled the file meanwhile. Two runs of the browser are evaluated, each
  from a paused record that holds its upload id and its chunks and that the user
  resumes: a 1 MiB file in four chunks whose third chunk fails three times with status
  500 and then succeeds (four requests for part 3, three delays, status "done"), and a
  file whose only chunk fails five times (five attempts, four delays, status "error"
  with the last message).
\<close>

theorem retry_budget_and_backoff:
  assumes "retryLoop env i meta cm 0 None st = (r, st', evs)"
  shows "1 \<le> attemptCount evs \<and> attemptCount evs \<le> 5
       \<and> hd evs = GetPartUrl (index cm + 1)
       \<and> sleeps evs = map (\<lambda>j. 800 * 2 ^ j + \<lfloor>mathRandom (env j) * 250\<rfloor>)
                         [0 ..< attemptCount evs - 1]
       \<and> (\<forall>n<length evs. \<forall>d. evs ! n = Sleep d \<longrightarrow>
             0 < n \<and> Suc n < length evs \<and> evs ! Suc n = GetPartUrl (index cm + 1))
       \<and> (\<forall>j x. 0 \<le> x \<and> x < 1 \<longrightarrow>
             0 \<le> \<lfloor>x * 250\<rfloor> \<and> \<lfloor>x * 250\<rfloor> < (250::int)
             \<and> backoffDelay j x = 800 * 2 ^ j + \<lfloor>x * 250\<rfloor>)
       \<and> (r = Inr () \<and> attemptCount evs = 4 \<longrightarrow> length (sleeps evs) = 3)
       \<and> (\<forall>stall timeout err s4 s5 e5 lastErr.
             tryAttempt (env 4) i meta cm s4 = (Inl (stall, timeout, err), s5, e5) \<longrightarrow>
             retryLoop env i meta cm 4 lastErr s4 = (Inl err, s5, e5))
       \<and> (\<forall>envs p meta0 m s err s' es tr.
             p < length (chunks meta0) \<and> findById i (uploads s) = Some m
             \<and> status m \<noteq> Paused \<and> status m \<noteq> Canceled
             \<and> p < length (chunks m) \<and> \<not> uploaded (chunks m ! p)
             \<and> retryLoop (envs p) i m (chunks m ! p) 0 None s = (Inl err, s', es) \<longrightarrow>
             chunkLoop envs i p meta0 s tr = Some (Inl err, s', tr @ es))
       \<and> (\<forall>s u err. findById i (uploads s) = Some u \<and> status u \<noteq> Paused
             \<and> status u \<noteq> Canceled \<longrightarrow>
             findById i (uploads (startFileUpload_catch err i s)) =
               Some (u\<lparr>status := Error,
                       error := Some (if err_message err = [] then ''Upload failed''
                                      else err_message err),
                       controller := False, completing := False\<rparr>))
       \<and> (\<exists>b. perform_all (pausedBrowser megaRecord) thirdChunkRetried = Some b
           \<and> map status (uploads (manager b)) = [Done]
           \<and> pipelines b = [Settled]
           \<and> length (filter (\<lambda>e. e = GetPartUrl 3) (happened b)) = 4
           \<and> attemptCount (happened b) = 7
           \<and> sleeps (happened b) = [800, 1600, 3200])
       \<and> (\<exists>b. perform_all (pausedBrowser exampleRecord) onlyChunkExhausted = Some b
           \<and> map status (uploads (manager b)) = [Error]
           \<and> map error (uploads (manager b)) = [Some ''failure 4'']
           \<and> pipelines b = [Settled]
           \<and> attemptCount (happened b) = 5
           \<and> sleeps (happened b) = [800, 1600, 3200, 6400])"
proof -
  have k0: "(0::nat) \<le> CHUNK_MAX_RETRIES" by simp
  from retryLoop_events[OF k0 assms]
  have ev: "evs \<noteq> []" "hd evs = GetPartUrl (index cm + 1)" "1 \<le> attemptCount evs"
    "attemptCount evs \<le> Suc CHUNK_MAX_RETRIES"
    "sleeps evs = map (\<lambda>j. backoffDelay j (mathRandom (env j))) [0 ..< attemptCount evs - 1]"
    by simp_all
  have 1: "1 \<le> attemptCount evs \<and> attemptCount evs \<le> 5"
    using ev(3,4) by (simp add: CHUNK_MAX_RETRIES_def)
  have 3: "sleeps evs = map (\<lambda>j. 800 * 2 ^ j + \<lfloor>mathRandom (env j) * 250\<rfloor>)
                         [0 ..< attemptCount evs - 1]"
    using ev(5) by (simp add: backoffDelay_def BACKOFF_BASE_MS_def BACKOFF_JITTER_MS_def)
  have 4: "0 \<le> \<lfloor>x * 250\<rfloor> \<and> \<lfloor>x * 250\<rfloor> < (250::int)
             \<and> backoffDelay j x = 800 * 2 ^ j + \<lfloor>x * 250\<rfloor>"
    if "0 \<le> x \<and> x < 1" for j and x :: real
    using backoffDelay_bounds[of x j] that
    by (simp add: backoffDelay_def BACKOFF_BASE_MS_def BACKOFF_JITTER_MS_def)
  have 5: "length (sleeps evs) = 3" if "r = Inr () \<and> attemptCount evs = 4"
    using that by (simp add: 3)
  have 6: "retryLoop env i meta cm 4 lastErr s4 = (Inl err, s5, e5)"
    if "tryAttempt (env 4) i meta cm s4 = (Inl (stall, timeout, err), s5, e5)"
    for stall timeout err s4 s5 e5 lastErr
    using retryLoop_throw[where env = env and k = 4, OF that]
    by (simp add: CHUNK_MAX_RETRIES_def)
  have 7: "chunkLoop envs i p meta0 s tr = Some (Inl err, s', tr @ es)"
    if "p < length (chunks meta0) \<and> findById i (uploads s) = Some m
             \<and> status m \<noteq> Paused \<and> status m \<noteq> Canceled
             \<and> p < length (chunks m) \<and> \<not> uploaded (chunks m ! p)
             \<and> retryLoop (envs p) i m (chunks m ! p) 0 None s = (Inl err, s', es)"
    for envs p meta0 m s err s' es tr
    using that chunkLoop_throw[of p meta0 i s m envs err s' es tr] by blast
  have 8: "findById i (uploads (startFileUpload_catch err i s)) =
               Some (u\<lparr>status := Error,
                       error := Some (if err_message err = [] then ''Upload failed''
                                      else err_message err),
                       controller := False, completing := False\<rparr>)"
    if "findById i (uploads s) = Some u \<and> status u \<noteq> Paused \<and> status u \<noteq> Canceled"
    for s u err
    using that startFileUpload_catch_marks[of i s u err] by blast
  have 9: "\<exists>b. perform_all (pausedBrowser megaRecord) thirdChunkRetried = Some b
           \<and> map status (uploads (manager b)) = [Done]
           \<and> pipelines b = [Settled]
           \<and> length (filter (\<lambda>e. e = GetPartUrl 3) (happened b)) = 4
           \<and> attemptCount (happened b) = 7
           \<and> sleeps (happened b) = [800, 1600, 3200]"
    by (simp add: eventloop_defs)
  have 10: "\<exists>b. perform_all (pausedBrowser exampleRecord) onlyChunkExhausted = Some b
           \<and> map status (uploads (manager b)) = [Error]
           \<and> map error (uploads (manager b)) = [Some ''failure 4'']
           \<and> pipelines b = [Settled]
           \<and> attemptCount (happened b) = 5
           \<and> sleeps (happened b) = [800, 1600, 3200, 6400]"
    by (simp add: eventloop_defs)
  note 11 = retryLoop_delay_then_attempt[OF k0 assms]
  from 1 ev(2) 3 11 4 5 6 7 8 9 10 show ?thesis by blast
qed


text \<open>
  The retry loop of the example chunk when the first three attempts fail with status
  500 and the fourth succeeds: four attempts and the three delays 800, 1600 and 3200.
\<close>

theorem retry_budget_and_backoff_witness:
  "attemptCount (snd (snd (retryLoop
      (\<lambda>k. if k < 3 then failWith 500 ''Request failed with status code 500''
           else succeedWith ''etag'')
      0 exampleRecord exampleChunk 0 None exampleState))) = 4
   \<and> sleeps (snd (snd (retryLoop
      (\<lambda>k. if k < 3 then failWith 500 ''Request failed with status code 500''
           else succeedWith ''etag'')
      0 exampleRecord exampleChunk 0 None exampleState))) = [800, 1600, 3200]
   \<and> length (sleeps (snd (snd (retryLoop
      (\<lambda>k. if k < 3 then failWith 500 ''Request failed with status code 500''
           else succeedWith ''etag'')
      0 exampleRecord exampleChunk 0 None exampleState)))) = 3"
proof -
  define env where "env = (\<lambda>k::nat. if k < 3
      then failWith 500 ''Request failed with status code 500'' else succeedWith ''etag'')"
  obtain r st' evs where
    R: "retryLoop env 0 exampleRecord exampleChunk 0 None exampleState = (r, st', evs)"
    by (cases "retryLoop env 0 exampleRecord exampleChunk 0 None exampleState") auto
  have "fst (retryLoop env 0 exampleRecord exampleChunk 0 None exampleState) = Inr ()"
    and "attemptCount (snd (snd (retryLoop env 0 exampleRecord exampleChunk 0 None
            exampleState))) = 4"
    by (simp_all add: env_def pipeline_defs example_defs)
  with R have a: "r = Inr ()" "attemptCount evs = 4" by simp_all
  have m: "mathRandom (env j) = 0" for j
    by (simp add: env_def failWith_def succeedWith_def)
  from retry_budget_and_backoff[OF R] a
  have "length (sleeps evs) = 3"
    and "sleeps evs = map (\<lambda>j. 800 * 2 ^ j + \<lfloor>mathRandom (env j) * 250\<rfloor>) [0 ..< 4 - 1]"
    by simp_all
  then have "length (sleeps evs) = 3" "sleeps evs = [800, 1600, 3200]"
    by (simp_all add: m upt_rec numeral_eq_Suc)
  with a R show ?thesis unfolding env_def by simp
qed

subsection \<open>Bytes counted for a retried chunk\<close>

text \<open>
  C6. The confirmed bytes of a record never decrease and never exceed the file size,
  also when attempts fail and are retried. Each attempt takes the bytes confirmed
  before the chunk from the record, which after a failed attempt still holds the bytes
  that attempt has reported. Take the record of a 10-byte file that holds its upload id
  and its one chunk, with 0 bytes uploaded: the first attempt reports 4 bytes and fails
  with status 500, which leaves 4 uploaded bytes in the record; the second attempt
  succeeds, and the call of \<^verbatim>\<open>uploadChunksSequentiallyWithRetry\<close> returns with 14
  uploaded bytes of 10.
\<close>

theorem retried_progress_counted_twice:
  "map uploadedBytes (uploads exampleState) = [0]
   \<and> map uploadedBytes (uploads (fst (snd (tryAttempt
        \<lparr>userActions = [], partUrl = None,
           progressEvents = [\<lparr>loaded = 4, total = Some 10\<rparr>],
           didStall = False, didTimeout = False,
           response = Inl (AxiosError (Some 500) ''Request failed with status code 500''),
           mathRandom = 0\<rparr>
        0 exampleRecord exampleChunk exampleState)))) = [4]
   \<and> (\<exists>s tr. uploadChunksSequentiallyWithRetry
        (\<lambda>p k. if k = 0
           then \<lparr>userActions = [], partUrl = None,
                  progressEvents = [\<lparr>loaded = 4, total = Some 10\<rparr>],
                  didStall = False, didTimeout = False,
                  response = Inl (AxiosError (Some 500) ''Request failed with status code 500''),
                  mathRandom = 0\<rparr>
           else \<lparr>userActions = [], partUrl = None,
                  progressEvents = [\<lparr>loaded = 10, total = Some 10\<rparr>],
                  didStall = False, didTimeout = False,
                  response = Inr (Some ''etag''), mathRandom = 0\<rparr>)
        0 exampleState = Some (Inr (), s, tr)
      \<and> tr = [GetPartUrl 1, Put 0 0 10, Sleep 800, GetPartUrl 1, Put 0 0 10, ChunkUploaded 0]
      \<and> map fileSize (uploads s) = [10]
      \<and> map uploadedBytes (uploads s) = [14]
      \<and> map (map uploaded \<circ> chunks) (uploads s) = [[True]])"
  by (simp add: pipeline_defs example_defs)

text \<open>
  The same count in the event loop, from the moment the file is dropped: the first run
  stops with "Missing uploadId" and the user presses Resume; the first transfer
  reports 4 bytes and fails with status 500, the retry succeeds, and the record is
  "done" with 14 uploaded bytes of 10.
\<close>

lemma retried_progress_in_the_event_loop:
  "\<exists>b. perform_all emptyBrowser
     [Drop [exampleFile], sessionStarts 0 10, Press (Resume 0),
      partUrlArrives 1, Settle 1 (Progressed \<lparr>loaded = 4, total = Some 10\<rparr>) 0,
      putFails 1 500 ''Request failed with status code 500'', sleepEnds 1,
      partUrlArrives 1, putSucceeds 1 ''etag''] = Some b
     \<and> map status (uploads (manager b)) = [Done]
     \<and> map fileSize (uploads (manager b)) = [10]
     \<and> map uploadedBytes (uploads (manager b)) = [14]
     \<and> happened b =
         [GetPartUrl 1, Put 0 0 10, Sleep 800, GetPartUrl 1, Put 0 0 10, ChunkUploaded 0]"
  by (simp add: eventloop_defs)

section \<open>Sequential upload of the chunks of a file\<close>

subsection \<open>A file that is paused and resumed during a transfer\<close>

text \<open>
  C3. Within the session of one file the chunks are to be sent one after the other, in
  ascending order, the next one only when the outcome of the one before is known, and
  a chunk that is marked uploaded is never sent again. The user resumes a paused
  25-byte file of three chunks whose second chunk is uploaded already, and presses
  Pause and then Resume while the first chunk is being transferred; every button is
  pressed while its row shows it. \<^verbatim>\<open>pauseUpload\<close> aborts the controller of the
  record, but the transfer has been given the signal of another controller and goes
  on, and when its pipeline reads the status again, the record is "uploading" once
  more: \<^verbatim>\<open>resumeUpload\<close> has queued the file, and the promotion effect has called
  \<^verbatim>\<open>startFileUpload\<close> for it a second time. The second pipeline has found chunk 0
  not uploaded and has asked for its part URL. After six tasks the first transfer has
  succeeded, chunk 0 is marked uploaded, also in the array that React has rendered,
  and the second pipeline is sending it again. After seven, the first pipeline is
  transferring chunk 2 while the second is transferring chunk 0. After all nine, two
  transfers of chunk 2 are under way at once, and the transfers of the file have
  started in the order 0, 0, 2, 2.
\<close>

theorem paused_and_resumed_file_sent_twice:
  "\<exists>b6 b7 b9.
       perform_all (pausedBrowser resumedRecord) (take 6 pausedDuringTransfer) = Some b6
     \<and> happened b6 =
         [GetPartUrl 1, Put 0 0 10, GetPartUrl 1, ChunkUploaded 0, GetPartUrl 3, Put 0 0 10]
     \<and> map (map uploaded \<circ> chunks) (uploadsRef b6) = [[True, True, False]]
     \<and> map transferring (pipelines b6) = [None, Some 0]
     \<and> perform_all (pausedBrowser resumedRecord) (take 7 pausedDuringTransfer) = Some b7
     \<and> happened b7 =
         [GetPartUrl 1, Put 0 0 10, GetPartUrl 1, ChunkUploaded 0, GetPartUrl 3, Put 0 0 10,
          Put 2 20 25]
     \<and> map transferring (pipelines b7) = [Some 2, Some 0]
     \<and> perform_all (pausedBrowser resumedRecord) pausedDuringTransfer = Some b9
     \<and> happened b9 =
         [GetPartUrl 1, Put 0 0 10, GetPartUrl 1, ChunkUploaded 0, GetPartUrl 3, Put 0 0 10,
          Put 2 20 25, ChunkUploaded 0, GetPartUrl 3, Put 2 20 25]
     \<and> puts (happened b9) = [0, 0, 2, 2]
     \<and> map transferring (pipelines b9) = [Some 2, Some 2]
     \<and> map status (uploads (manager b9)) = [Uploading]"
  by (simp add: eventloop_defs)

end
